theory Spec2Isabelle
  imports Main "HOL-Library.Word" "HOL-Library.Multiset"
begin

section \<open>Shared vocabulary\<close>

text \<open>
  Both containers are linked lists of heap nodes. A node address is a natural number and a
  \<^verbatim>\<open>node*\<close> is an optional address, \<open>None\<close> being \<^verbatim>\<open>nullptr\<close>. The free store
  is a partial map from addresses to nodes; \<^verbatim>\<open>new\<close> takes the next address of a counter
  that only grows, so an address is never handed out twice, and \<^verbatim>\<open>delete\<close> removes the
  address from the map. What C++ leaves undefined (dereferencing a null or a freed pointer,
  reading an array out of range, reaching the end of a function that must return a value)
  is the value \<open>Fault\<close>; a loop that never ends is the value \<open>None\<close> of a
  \<^theory_text>\<open>partial_function\<close>.
\<close>

type_synonym addr = nat

datatype error = Null_Dereference | Dangling_Pointer | Out_Of_Bounds | Division_By_Zero | Missing_Return | Thrown string

datatype 'a result = Ok 'a | Fault error

text \<open>Sequencing: a fault or a loop that never ends stops what follows.\<close>

definition then_do :: "'a result option \<Rightarrow> ('a \<Rightarrow> 'b result option) \<Rightarrow> 'b result option" where
  "then_do m f = Option.bind m (\<lambda>r. case r of Fault e \<Rightarrow> Some (Fault e) | Ok x \<Rightarrow> f x)"

lemma then_do_mono [partial_function_mono]:
  assumes mf: "mono_option B" and mg: "\<And>y. mono_option (\<lambda>f. C y f)"
  shows "mono_option (\<lambda>f. then_do (B f) (\<lambda>y. C y f))"
  unfolding then_do_def
  apply (intro partial_function_mono mf)
  subgoal for y by (cases y) (simp_all add: mg option.const_mono)
  done

lemma then_do_simps [simp]:
  "then_do None f = None"
  "then_do (Some (Fault e)) f = Some (Fault e)"
  "then_do (Some (Ok x)) f = f x"
  by (simp_all add: then_do_def)

section \<open>Stack\_TS (stack\_ts.hpp)\<close>

text \<open>
  The node constructor builds its payload with \<^verbatim>\<open>std::make_shared<long>\<close>, so the payload
  held by a node is a \<^verbatim>\<open>long\<close>: a 64-bit word. An empty \<^verbatim>\<open>shared_ptr\<close> is \<open>None\<close>.
\<close>

type_synonym long = "64 word"

record snode =
  sn_next :: "addr option"
  sn_data :: "long option"

text \<open>\<^verbatim>\<open>std::thread::id{}\<close>, the id of no thread, is \<open>None\<close>.\<close>

record hazard_ptr =
  hp_thread_id :: "nat option"
  hp_pointer :: "addr option"

record Stack_TS =
  s_head :: "addr option"
  s_garbage :: "addr option"
  s_hazard_arr :: "hazard_ptr list option"
  s_hazard_max_size :: nat

record smem =
  sm_nodes :: "addr \<rightharpoonup> snode"
  sm_fresh :: addr

definition Stack_TS_init :: "nat \<Rightarrow> Stack_TS" where
  "Stack_TS_init max_size =
     \<lparr>s_head = None, s_garbage = None,
      s_hazard_arr = Some (replicate max_size \<lparr>hp_thread_id = None, hp_pointer = None\<rparr>),
      s_hazard_max_size = max_size\<rparr>"

text \<open>
  The move constructor. The new object is built from \<open>other\<close> alone; the result is the new
  object and what is left of \<open>other\<close>. \<^verbatim>\<open>_garbage_tmp\<close> is read and never used.
\<close>

definition Stack_TS_move :: "Stack_TS \<Rightarrow> Stack_TS \<times> Stack_TS" where
  "Stack_TS_move other =
     (let hazard_max_size = s_hazard_max_size other;
          hazard_arr = s_hazard_arr other;
          other1 = other\<lparr>s_hazard_arr := None\<rparr>;
          head_tmp = s_head other1;
          other2 = other1\<lparr>s_head := None\<rparr>;
          garbage_tmp = s_garbage other2;
          other3 = other2\<lparr>s_garbage := None\<rparr>
      in (\<lparr>s_head = head_tmp, s_garbage = head_tmp,
           s_hazard_arr = hazard_arr, s_hazard_max_size = hazard_max_size\<rparr>, other3))"

text \<open>
  Move assignment, \<^verbatim>\<open>operator=(Stack_TS&&)\<close>. \<^verbatim>\<open>this\<close> and \<^verbatim>\<open>other\<close> are references and
  may name the same object, so the objects live in a store and the two references are
  their names there. No path of the function returns a value: it throws at its first
  statement, or it makes its stores and reaches the closing brace without a \<^verbatim>\<open>return\<close>
  statement, which is undefined in a function that returns a reference. The result is how
  the call ends, then the store as the call has left it at that point.
  \<^verbatim>\<open>_garbage_tmp\<close> is read and never used.
\<close>

type_synonym objects = "nat \<Rightarrow> Stack_TS"

definition Stack_TS_move_assign :: "nat \<Rightarrow> nat \<Rightarrow> objects \<Rightarrow> error \<times> objects" where
  "Stack_TS_move_assign this other st =
     (if s_hazard_max_size (st this) > 0
      then (Thrown ''Can not assign to an intialized stack'', st)
      else
        let st1 = st(this := (st this)\<lparr>s_hazard_max_size := s_hazard_max_size (st other)\<rparr>);
            st2 = st1(this := (st1 this)\<lparr>s_hazard_arr := s_hazard_arr (st1 other)\<rparr>);
            st3 = st2(other := (st2 other)\<lparr>s_hazard_arr := None\<rparr>);
            head_tmp = s_head (st3 other);
            st4 = st3(other := (st3 other)\<lparr>s_head := None\<rparr>);
            st5 = st4(this := (st4 this)\<lparr>s_head := head_tmp\<rparr>);
            garbage_tmp = s_garbage (st5 other);
            st6 = st5(other := (st5 other)\<lparr>s_garbage := None\<rparr>);
            st7 = st6(this := (st6 this)\<lparr>s_garbage := head_tmp\<rparr>)
        in (Missing_Return, st7))"

text \<open>The addresses on the chain of \<^verbatim>\<open>next\<close> pointers that starts at a pointer.\<close>

inductive reach :: "(addr \<rightharpoonup> snode) \<Rightarrow> addr option \<Rightarrow> addr \<Rightarrow> bool" for h where
  reach_here: "h a = Some n \<Longrightarrow> reach h (Some a) a"
| reach_next: "h a = Some n \<Longrightarrow> reach h (sn_next n) b \<Longrightarrow> reach h (Some a) b"

subsection \<open>Stack operations\<close>

definition snode_ctor :: "long \<Rightarrow> snode" where
  "snode_ctor arg = \<lparr>sn_next = None, sn_data = Some arg\<rparr>"

text \<open>
  \<^verbatim>\<open>push\<close>. With one thread running, \<^verbatim>\<open>compare_exchange_weak\<close> finds \<^verbatim>\<open>head\<close> equal to
  the value just loaded into \<^verbatim>\<open>new_node->next\<close> and stores \<^verbatim>\<open>new_node\<close>; a spurious
  failure repeats the same comparison.
\<close>

definition stack_push :: "long \<Rightarrow> smem \<Rightarrow> Stack_TS \<Rightarrow> smem \<times> Stack_TS" where
  "stack_push arg m s =
     (let new_node = sm_fresh m;
          m1 = m\<lparr>sm_nodes := (sm_nodes m)(new_node \<mapsto> snode_ctor arg), sm_fresh := Suc new_node\<rparr>;
          m2 = m1\<lparr>sm_nodes := (sm_nodes m1)(new_node \<mapsto> (snode_ctor arg)\<lparr>sn_next := s_head s\<rparr>)\<rparr>
      in (m2, s\<lparr>s_head := Some new_node\<rparr>))"

definition hazard_at :: "Stack_TS \<Rightarrow> nat \<Rightarrow> hazard_ptr result" where
  "hazard_at s idx =
     (case s_hazard_arr s of
        None \<Rightarrow> Fault Null_Dereference
      | Some arr \<Rightarrow> if idx < length arr then Ok (arr ! idx) else Fault Out_Of_Bounds)"

definition hazard_store :: "Stack_TS \<Rightarrow> nat \<Rightarrow> hazard_ptr \<Rightarrow> Stack_TS" where
  "hazard_store s idx v = s\<lparr>s_hazard_arr := map_option (\<lambda>arr. arr[idx := v]) (s_hazard_arr s)\<rparr>"

text \<open>
  \<^verbatim>\<open>get_hazard_pointer\<close>: the \<^verbatim>\<open>for\<close> loop from index \<open>idx\<close> on. The result is the index
  of the slot claimed for the calling thread, or \<open>None\<close> for \<^verbatim>\<open>nullptr\<close>.
\<close>

function get_hazard_pointer_from :: "nat \<Rightarrow> nat \<Rightarrow> Stack_TS \<Rightarrow> (nat option \<times> Stack_TS) result" where
  "get_hazard_pointer_from idx this_thread_id s =
     (if idx < s_hazard_max_size s then
        (case hazard_at s idx of
           Fault e \<Rightarrow> Fault e
         | Ok hz \<Rightarrow>
             if hp_thread_id hz = None
             then Ok (Some idx, hazard_store s idx (hz\<lparr>hp_thread_id := Some this_thread_id\<rparr>))
             else get_hazard_pointer_from (Suc idx) this_thread_id s)
      else Ok (None, s))"
  by pat_completeness auto
termination
  by (relation "measure (\<lambda>(idx, t, s). s_hazard_max_size s - idx)") auto

definition get_hazard_pointer :: "nat \<Rightarrow> Stack_TS \<Rightarrow> (nat option \<times> Stack_TS) result" where
  "get_hazard_pointer this_thread_id s = get_hazard_pointer_from 0 this_thread_id s"

definition set_hazard_pointer :: "nat \<Rightarrow> Stack_TS \<Rightarrow> (addr option \<times> Stack_TS) result" where
  "set_hazard_pointer hp s =
     (let old_head = s_head s in
      case hazard_at s hp of
        Fault e \<Rightarrow> Fault e
      | Ok hz \<Rightarrow> Ok (old_head, hazard_store s hp (hz\<lparr>hp_pointer := old_head\<rparr>)))"

definition clear_hazard_pointer :: "nat \<Rightarrow> Stack_TS \<Rightarrow> Stack_TS result" where
  "clear_hazard_pointer hp s =
     (case hazard_at s hp of
        Fault e \<Rightarrow> Fault e
      | Ok hz \<Rightarrow> Ok (hazard_store s hp (hz\<lparr>hp_pointer := None, hp_thread_id := None\<rparr>)))"

function hazard_existed_from :: "nat \<Rightarrow> Stack_TS \<Rightarrow> addr option \<Rightarrow> bool result" where
  "hazard_existed_from idx s disposable =
     (if idx < s_hazard_max_size s then
        (case hazard_at s idx of
           Fault e \<Rightarrow> Fault e
         | Ok hz \<Rightarrow>
             if hp_pointer hz = disposable then Ok True
             else hazard_existed_from (Suc idx) s disposable)
      else Ok False)"
  by pat_completeness auto
termination
  by (relation "measure (\<lambda>(idx, s, d). s_hazard_max_size s - idx)") auto

definition hazard_existed :: "Stack_TS \<Rightarrow> addr option \<Rightarrow> bool result" where
  "hazard_existed s disposable = hazard_existed_from 0 s disposable"

text \<open>
  \<^verbatim>\<open>claim_later\<close>: the node goes to the front of the garbage list (the compare-exchange
  succeeds when no other thread runs).
\<close>

definition claim_later :: "addr \<Rightarrow> smem \<Rightarrow> Stack_TS \<Rightarrow> (smem \<times> Stack_TS) result" where
  "claim_later disposable m s =
     (case sm_nodes m disposable of
        None \<Rightarrow> Fault Dangling_Pointer
      | Some n \<Rightarrow>
          Ok (m\<lparr>sm_nodes := (sm_nodes m)(disposable \<mapsto> n\<lparr>sn_next := s_garbage s\<rparr>)\<rparr>,
              s\<lparr>s_garbage := Some disposable\<rparr>))"

text \<open>
  \<^verbatim>\<open>delete\<close> of a node runs the destructor, which first deletes the node's successor, then
  gives the node's own memory back.
\<close>

partial_function (option) delete_snode :: "addr \<Rightarrow> smem \<Rightarrow> smem result option" where
  "delete_snode p m =
     (case sm_nodes m p of
        None \<Rightarrow> Some (Fault Dangling_Pointer)
      | Some n \<Rightarrow>
          then_do (case sn_next n of None \<Rightarrow> Some (Ok m) | Some q \<Rightarrow> delete_snode q m)
            (\<lambda>m1. Some (Ok (m1\<lparr>sm_nodes := (sm_nodes m1)(p := None)\<rparr>))))"

text \<open>The \<^verbatim>\<open>while\<close> loop of \<^verbatim>\<open>collect_garbage\<close>, from the current \<^verbatim>\<open>claimed_garbage\<close> on.\<close>

partial_function (option) stack_collect_loop :: "addr option \<Rightarrow> smem \<Rightarrow> Stack_TS \<Rightarrow> (smem \<times> Stack_TS) result option" where
  "stack_collect_loop claimed_garbage m s =
     (case claimed_garbage of
        None \<Rightarrow> Some (Ok (m, s))
      | Some p \<Rightarrow>
          (case sm_nodes m p of
             None \<Rightarrow> Some (Fault Dangling_Pointer)
           | Some n \<Rightarrow>
               let tmp = sn_next n;
                   m1 = m\<lparr>sm_nodes := (sm_nodes m)(p \<mapsto> n\<lparr>sn_next := None\<rparr>)\<rparr>
               in then_do
                    (case hazard_existed s (Some p) of
                       Fault e \<Rightarrow> Some (Fault e)
                     | Ok True \<Rightarrow> Some (claim_later p m1 s)
                     | Ok False \<Rightarrow> then_do (delete_snode p m1) (\<lambda>m2. Some (Ok (m2, s))))
                    (\<lambda>(m2, s2). stack_collect_loop tmp m2 s2)))"

definition stack_collect_garbage :: "smem \<Rightarrow> Stack_TS \<Rightarrow> (smem \<times> Stack_TS) result option" where
  "stack_collect_garbage m s = stack_collect_loop (s_garbage s) m (s\<lparr>s_garbage := None\<rparr>)"

text \<open>The loop \<^verbatim>\<open>while(!hp) hp = get_hazard_pointer();\<close> of \<^verbatim>\<open>pop\<close>.\<close>

partial_function (option) stack_acquire :: "nat \<Rightarrow> Stack_TS \<Rightarrow> (nat \<times> Stack_TS) result option" where
  "stack_acquire this_thread_id s =
     (case get_hazard_pointer this_thread_id s of
        Fault e \<Rightarrow> Some (Fault e)
      | Ok (None, s1) \<Rightarrow> stack_acquire this_thread_id s1
      | Ok (Some hp, s1) \<Rightarrow> Some (Ok (hp, s1)))"

text \<open>
  The \<^verbatim>\<open>do ... while\<close> loop of \<^verbatim>\<open>pop\<close>: publish the head in the slot, then try to swing
  \<^verbatim>\<open>head\<close> from that value to its successor.
\<close>

partial_function (option) stack_unlink :: "nat \<Rightarrow> smem \<Rightarrow> Stack_TS \<Rightarrow> (addr option \<times> Stack_TS) result option" where
  "stack_unlink hp m s =
     (case set_hazard_pointer hp s of
        Fault e \<Rightarrow> Some (Fault e)
      | Ok (None, s1) \<Rightarrow> Some (Ok (None, s1))
      | Ok (Some old_head, s1) \<Rightarrow>
          (case sm_nodes m old_head of
             None \<Rightarrow> Some (Fault Dangling_Pointer)
           | Some n \<Rightarrow>
               if s_head s1 = Some old_head
               then Some (Ok (Some old_head, s1\<lparr>s_head := sn_next n\<rparr>))
               else stack_unlink hp m s1))"

text \<open>\<^verbatim>\<open>pop\<close>, called by the thread \<open>this_thread_id\<close>: the value returned, then the state.\<close>

definition stack_pop :: "nat \<Rightarrow> smem \<Rightarrow> Stack_TS \<Rightarrow> (long option \<times> smem \<times> Stack_TS) result option" where
  "stack_pop this_thread_id m s =
     then_do (stack_acquire this_thread_id s) (\<lambda>(hp, s1).
     then_do (stack_unlink hp m s1) (\<lambda>(old_head, s2).
     then_do (Some (clear_hazard_pointer hp s2)) (\<lambda>s3.
       case old_head of
         None \<Rightarrow> Some (Ok (None, m, s3))
       | Some p \<Rightarrow>
           (case sm_nodes m p of
              None \<Rightarrow> Some (Fault Dangling_Pointer)
            | Some n \<Rightarrow>
                let res = sn_data n;
                    m1 = m\<lparr>sm_nodes := (sm_nodes m)(p \<mapsto> n\<lparr>sn_data := None, sn_next := None\<rparr>)\<rparr>
                in then_do
                     (case hazard_existed s3 (Some p) of
                        Fault e \<Rightarrow> Some (Fault e)
                      | Ok False \<Rightarrow> then_do (delete_snode p m1) (\<lambda>m2. Some (Ok (m2, s3)))
                      | Ok True \<Rightarrow> Some (claim_later p m1 s3))
                     (\<lambda>(m2, s4).
                        then_do (stack_collect_garbage m2 s4) (\<lambda>(m3, s5).
                          Some (Ok (res, m3, s5))))))))"

definition is_empty :: "Stack_TS \<Rightarrow> bool" where
  "is_empty s = (if s_head s = None then True else False)"

section \<open>Queue\_TS (queue\_ts.hpp)\<close>

text \<open>
  A queue node: the claim flag, the payload pointer (the boxed value, \<open>None\<close> for
  \<^verbatim>\<open>nullptr\<close>) and the successor. A hazard slot: its flag and the protected pointer.
  \<^verbatim>\<open>garbage_size\<close> and \<^verbatim>\<open>garbage_max_size\<close> are \<^verbatim>\<open>size_t\<close> values, 64-bit words
  whose increment and decrement wrap around.
\<close>

record 'a qnode =
  qn_taken :: bool
  qn_data :: "'a option"
  qn_next :: "addr option"

record hazard =
  hz_taken :: bool
  hz_pointer :: "addr option"

record 'a Queue_TS =
  q_nodes :: "addr \<rightharpoonup> 'a qnode"
  q_fresh :: addr
  q_head :: "addr option"
  q_tail :: "addr option"
  q_garbage :: "addr option"
  q_garbage_size :: "64 word"
  q_garbage_max_size :: "64 word"
  q_hazard_holder :: "hazard list"
  q_hazard_holder_size :: nat

definition qnode_ctor :: "'a qnode" where
  "qnode_ctor = \<lparr>qn_taken = False, qn_data = None, qn_next = None\<rparr>"

definition hazard_ctor :: hazard where
  "hazard_ctor = \<lparr>hz_taken = False, hz_pointer = None\<rparr>"

text \<open>The constructor; the dummy node is the first allocation, at address 1.\<close>

definition Queue_TS_init :: "nat \<Rightarrow> 64 word \<Rightarrow> 'a Queue_TS" where
  "Queue_TS_init hazard_holder_size garbage_max_size =
     \<lparr>q_nodes = [1 \<mapsto> qnode_ctor], q_fresh = 2,
      q_head = Some 1, q_tail = Some 1, q_garbage = None,
      q_garbage_size = 0, q_garbage_max_size = garbage_max_size,
      q_hazard_holder = replicate hazard_holder_size hazard_ctor,
      q_hazard_holder_size = hazard_holder_size\<rparr>"

definition new_qnode :: "'a Queue_TS \<Rightarrow> addr \<times> 'a Queue_TS" where
  "new_qnode q =
     (q_fresh q, q\<lparr>q_nodes := (q_nodes q)(q_fresh q \<mapsto> qnode_ctor), q_fresh := Suc (q_fresh q)\<rparr>)"

text \<open>
  The \<^verbatim>\<open>do ... while\<close> loop of \<^verbatim>\<open>push\<close>: load the tail and try to swing its payload
  from \<^verbatim>\<open>nullptr\<close> to the new payload. The result is \<^verbatim>\<open>old_tail\<close>.
\<close>

partial_function (option) push_claim :: "'a \<Rightarrow> 'a Queue_TS \<Rightarrow> (addr \<times> 'a Queue_TS) result option" where
  "push_claim new_data q =
     (case q_tail q of
        None \<Rightarrow> Some (Fault Null_Dereference)
      | Some old_tail \<Rightarrow>
          (case q_nodes q old_tail of
             None \<Rightarrow> Some (Fault Dangling_Pointer)
           | Some n \<Rightarrow>
               if qn_data n = None
               then Some (Ok (old_tail, q\<lparr>q_nodes := (q_nodes q)(old_tail \<mapsto> n\<lparr>qn_data := Some new_data\<rparr>)\<rparr>))
               else push_claim new_data q))"

definition queue_push :: "'a \<Rightarrow> 'a Queue_TS \<Rightarrow> 'a Queue_TS result option" where
  "queue_push new_value q =
     (let (new_node, q1) = new_qnode q in
      then_do (push_claim new_value q1) (\<lambda>(old_tail, q2).
        case q_nodes q2 old_tail of
          None \<Rightarrow> Some (Fault Dangling_Pointer)
        | Some n \<Rightarrow>
            Some (Ok (q2\<lparr>q_nodes := (q_nodes q2)(old_tail \<mapsto> n\<lparr>qn_next := Some new_node\<rparr>),
                         q_tail := Some new_node\<rparr>))))"

text \<open>
  \<^verbatim>\<open>load_head_set_hazard\<close>, first loop: \<^verbatim>\<open>test_and_set\<close> on the slot's flag, and on to
  the next slot, modulo the table size, while the flag was already set.
\<close>

partial_function (option) find_slot :: "nat \<Rightarrow> 'a Queue_TS \<Rightarrow> (nat \<times> 'a Queue_TS) result option" where
  "find_slot slot q =
     (if slot < length (q_hazard_holder q) then
        let hz = q_hazard_holder q ! slot;
            taken = hz_taken hz;
            q1 = q\<lparr>q_hazard_holder := (q_hazard_holder q)[slot := hz\<lparr>hz_taken := True\<rparr>]\<rparr>
        in if \<not> taken then Some (Ok (slot, q1))
           else if q_hazard_holder_size q1 = 0 then Some (Fault Division_By_Zero)
           else find_slot ((slot + 1) mod q_hazard_holder_size q1) q1
      else Some (Fault Out_Of_Bounds))"

text \<open>Second loop: publish the head in the slot until the head read again is the same.\<close>

partial_function (option) publish_head :: "nat \<Rightarrow> 'a Queue_TS \<Rightarrow> (addr option \<times> 'a Queue_TS) result option" where
  "publish_head slot q =
     (if slot < length (q_hazard_holder q) then
        let old_head = q_head q;
            q1 = q\<lparr>q_hazard_holder :=
                     (q_hazard_holder q)[slot := (q_hazard_holder q ! slot)\<lparr>hz_pointer := old_head\<rparr>]\<rparr>
        in if old_head \<noteq> q_head q1 then publish_head slot q1 else Some (Ok (old_head, q1))
      else Some (Fault Out_Of_Bounds))"

definition load_head_set_hazard :: "'a Queue_TS \<Rightarrow> (addr option \<times> nat \<times> 'a Queue_TS) result option" where
  "load_head_set_hazard q =
     then_do (find_slot 0 q) (\<lambda>(slot, q1).
     then_do (publish_head slot q1) (\<lambda>(old_head, q2).
       Some (Ok (old_head, slot, q2))))"

definition clear_hazard :: "nat \<Rightarrow> 'a Queue_TS \<Rightarrow> 'a Queue_TS result" where
  "clear_hazard slot q =
     (if slot < length (q_hazard_holder q)
      then Ok (q\<lparr>q_hazard_holder := (q_hazard_holder q)[slot := \<lparr>hz_taken = False, hz_pointer = None\<rparr>]\<rparr>)
      else Fault Out_Of_Bounds)"

function is_hazardous_from :: "nat \<Rightarrow> 'a Queue_TS \<Rightarrow> addr option \<Rightarrow> bool result" where
  "is_hazardous_from i q disposable =
     (if i < q_hazard_holder_size q then
        (if i < length (q_hazard_holder q) then
           (if hz_pointer (q_hazard_holder q ! i) = disposable then Ok True
            else is_hazardous_from (Suc i) q disposable)
         else Fault Out_Of_Bounds)
      else Ok False)"
  by pat_completeness auto
termination
  by (relation "measure (\<lambda>(i, q, d). q_hazard_holder_size q - i)") auto

definition is_hazardous :: "'a Queue_TS \<Rightarrow> addr option \<Rightarrow> bool result" where
  "is_hazardous q disposable = is_hazardous_from 0 q disposable"

text \<open>
  \<^verbatim>\<open>push_to_garbage\<close>: the node goes to the front of the garbage list (the compare-exchange
  succeeds when no other thread runs), then the counter is incremented.
\<close>

definition push_to_garbage :: "addr \<Rightarrow> 'a Queue_TS \<Rightarrow> 'a Queue_TS result" where
  "push_to_garbage disposable q =
     (case q_nodes q disposable of
        None \<Rightarrow> Fault Dangling_Pointer
      | Some n \<Rightarrow>
          Ok (q\<lparr>q_nodes := (q_nodes q)(disposable \<mapsto> n\<lparr>qn_next := q_garbage q\<rparr>),
                q_garbage := Some disposable,
                q_garbage_size := q_garbage_size q + 1\<rparr>))"

definition is_garbage_full :: "'a Queue_TS \<Rightarrow> bool" where
  "is_garbage_full q = (if q_garbage_size q < q_garbage_max_size q then False else True)"

text \<open>
  \<^verbatim>\<open>delete\<close> of a node runs the destructor: the successor is deleted first, then the
  payload, then the node's own memory is given back.
\<close>

partial_function (option) delete_qnode :: "addr \<Rightarrow> 'a Queue_TS \<Rightarrow> 'a Queue_TS result option" where
  "delete_qnode p q =
     (case q_nodes q p of
        None \<Rightarrow> Some (Fault Dangling_Pointer)
      | Some n \<Rightarrow>
          then_do (case qn_next n of None \<Rightarrow> Some (Ok q) | Some nx \<Rightarrow> delete_qnode nx q)
            (\<lambda>q1. Some (Ok (q1\<lparr>q_nodes := (q_nodes q1)(p := None)\<rparr>))))"

text \<open>The \<^verbatim>\<open>while\<close> loop of \<^verbatim>\<open>collect_garbage\<close>, from the current \<^verbatim>\<open>__garbage\<close> on.\<close>

partial_function (option) queue_collect_loop :: "addr option \<Rightarrow> 'a Queue_TS \<Rightarrow> 'a Queue_TS result option" where
  "queue_collect_loop garbage q =
     (case garbage of
        None \<Rightarrow> Some (Ok q)
      | Some p \<Rightarrow>
          let q1 = q\<lparr>q_garbage_size := q_garbage_size q - 1\<rparr> in
          (case q_nodes q1 p of
             None \<Rightarrow> Some (Fault Dangling_Pointer)
           | Some n \<Rightarrow>
               let tmp = qn_next n;
                   q2 = q1\<lparr>q_nodes := (q_nodes q1)(p \<mapsto> n\<lparr>qn_next := None\<rparr>)\<rparr>
               in then_do
                    (case is_hazardous q2 (Some p) of
                       Fault e \<Rightarrow> Some (Fault e)
                     | Ok True \<Rightarrow> Some (push_to_garbage p q2)
                     | Ok False \<Rightarrow> delete_qnode p q2)
                    (\<lambda>q3. queue_collect_loop tmp q3)))"

definition queue_collect_garbage :: "'a Queue_TS \<Rightarrow> 'a Queue_TS result option" where
  "queue_collect_garbage q = queue_collect_loop (q_garbage q) (q\<lparr>q_garbage := None\<rparr>)"

text \<open>
  The first loop of \<^verbatim>\<open>pop\<close>: protect the head, \<^verbatim>\<open>test_and_set\<close> its claim flag, release
  the slot, and again while the flag was already set. The result is \<^verbatim>\<open>old_head\<close>.
\<close>

partial_function (option) pop_claim :: "'a Queue_TS \<Rightarrow> (addr \<times> 'a Queue_TS) result option" where
  "pop_claim q =
     then_do (load_head_set_hazard q) (\<lambda>(old_head, slot, q1).
       case old_head of
         None \<Rightarrow> Some (Fault Null_Dereference)
       | Some h \<Rightarrow>
           (case q_nodes q1 h of
              None \<Rightarrow> Some (Fault Dangling_Pointer)
            | Some n \<Rightarrow>
                let taken = qn_taken n;
                    q2 = q1\<lparr>q_nodes := (q_nodes q1)(h \<mapsto> n\<lparr>qn_taken := True\<rparr>)\<rparr>
                in then_do (Some (clear_hazard slot q2)) (\<lambda>q3.
                     if \<not> taken then Some (Ok (h, q3)) else pop_claim q3)))"

text \<open>\<^verbatim>\<open>pop\<close>: the value returned (\<open>None\<close> for the empty \<^verbatim>\<open>unique_ptr\<close>), then the state.\<close>

definition queue_pop :: "'a Queue_TS \<Rightarrow> ('a option \<times> 'a Queue_TS) result option" where
  "queue_pop q =
     then_do (pop_claim q) (\<lambda>(old_head, q1).
       case q_nodes q1 old_head of
         None \<Rightarrow> Some (Fault Dangling_Pointer)
       | Some n \<Rightarrow>
           if Some old_head = q_tail q1
           then Some (Ok (None, q1\<lparr>q_nodes := (q_nodes q1)(old_head \<mapsto> n\<lparr>qn_taken := False\<rparr>)\<rparr>))
           else
             let q2 = q1\<lparr>q_head := qn_next n\<rparr>;
                 old_data = qn_data n;
                 res = old_data;
                 q3 = q2\<lparr>q_nodes := (q_nodes q2)(old_head \<mapsto> n\<lparr>qn_data := None, qn_next := None\<rparr>)\<rparr>
             in then_do
                  (case is_hazardous q3 (Some old_head) of
                     Fault e \<Rightarrow> Some (Fault e)
                   | Ok True \<Rightarrow> Some (push_to_garbage old_head q3)
                   | Ok False \<Rightarrow> delete_qnode old_head q3)
                  (\<lambda>q4.
                     then_do (if is_garbage_full q4 then queue_collect_garbage q4 else Some (Ok q4))
                       (\<lambda>q5. Some (Ok (res, q5)))))"

section \<open>Queue\_TS run by several threads\<close>

text \<open>
  Threads interleave at the shared-memory accesses of \<^verbatim>\<open>push\<close> and \<^verbatim>\<open>pop\<close>, every access
  taking effect at once for all threads (sequential consistency). A program counter names
  the statement a thread executes next and carries the locals of the call:
  \<^item> \<open>Idle\<close>: between calls; a producer's step from here allocates the payload and the new
    node of its next \<^verbatim>\<open>push\<close> (lines 122-123), a consumer's step enters \<^verbatim>\<open>pop\<close>;
  \<^item> \<open>Push_Load\<close>: \<^verbatim>\<open>old_tail = tail.load()\<close> (lines 129-130);
  \<^item> \<open>Push_CAS\<close>: \<^verbatim>\<open>old_tail->data.compare_exchange_strong(dummy_ptr, new_data)\<close> (line 132);
  \<^item> \<open>Push_Link\<close>: \<^verbatim>\<open>old_tail->next = new_node\<close> (line 134);
  \<^item> \<open>Push_Publish\<close>: \<^verbatim>\<open>tail.store(new_node)\<close> (line 135);
  \<^item> \<open>Pop_Find_Slot\<close>: \<^verbatim>\<open>hazard_holder[slot].taken.test_and_set()\<close> and the choice of the next
    slot (lines 145-150);
  \<^item> \<open>Pop_Load_Head\<close>: \<^verbatim>\<open>old_head = head.load()\<close> (line 158);
  \<^item> \<open>Pop_Publish\<close>: \<^verbatim>\<open>hazard_holder[slot].pointer.store(old_head)\<close> (line 159);
  \<^item> \<open>Pop_Validate\<close>: \<^verbatim>\<open>while(old_head != head.load())\<close> (line 161);
  \<^item> \<open>Pop_Claim\<close>: \<^verbatim>\<open>old_head->taken.test_and_set()\<close> (line 230);
  \<^item> \<open>Pop_Clear\<close>: \<^verbatim>\<open>clear_hazard(slot)\<close> and \<^verbatim>\<open>if(!taken) break\<close> (lines 235-238);
  \<^item> \<open>Pop_Check_Tail\<close>: \<^verbatim>\<open>if(old_head == tail.load())\<close> (line 243);
  \<^item> \<open>Pop_Release\<close>: \<^verbatim>\<open>old_head->taken.clear()\<close> and the empty return (lines 244-245);
  \<^item> \<open>Pop_Unlink\<close>: \<^verbatim>\<open>head.store(old_head->next)\<close> (line 250);
  \<^item> \<open>Pop_Take\<close>: the payload is loaded, then \<^verbatim>\<open>data\<close> and \<^verbatim>\<open>next\<close> are reset (lines 251-256);
  \<^item> \<open>Pop_Scan\<close>: \<^verbatim>\<open>is_hazardous(old_head)\<close> (line 258);
  \<^item> \<open>Pop_Dispose\<close>: \<^verbatim>\<open>push_to_garbage(old_head)\<close> or \<^verbatim>\<open>delete old_head\<close> (lines 259-261);
  \<^item> \<open>Pop_Sweep\<close>: \<^verbatim>\<open>if(is_garbage_full()) collect_garbage()\<close> and the return (lines 263-266).

  A step that stands for several accesses (\<open>Pop_Clear\<close>, \<open>Pop_Take\<close>, the table scan of
  \<open>Pop_Scan\<close>, \<open>Pop_Dispose\<close>, \<open>Pop_Sweep\<close>) runs them without another thread in between,
  by the functions of the previous section. Every run of this machine is therefore a run
  of the program: one in which no other thread happens to be scheduled inside such a step.
\<close>

datatype 'a pc =
    Idle
  | Push_Load 'a addr
  | Push_CAS 'a addr "addr option"
  | Push_Link addr addr
  | Push_Publish addr
  | Pop_Find_Slot nat
  | Pop_Load_Head nat
  | Pop_Publish nat "addr option"
  | Pop_Validate nat "addr option"
  | Pop_Claim nat "addr option"
  | Pop_Clear nat addr bool
  | Pop_Check_Tail addr
  | Pop_Release addr
  | Pop_Unlink addr
  | Pop_Take addr
  | Pop_Scan addr "'a option"
  | Pop_Dispose addr "'a option" bool
  | Pop_Sweep "'a option"

text \<open>
  A producer pushes the values of \<open>th_pushes\<close> one after the other and is then done. A
  consumer calls \<^verbatim>\<open>pop\<close> until a call returns the empty result, and is then done;
  \<open>th_popped\<close> lists the values its pops returned.
\<close>

record 'a thread =
  th_consumer :: bool
  th_pushes :: "'a list"
  th_pc :: "'a pc"
  th_popped :: "'a list"
  th_done :: bool

definition producer :: "'a list \<Rightarrow> 'a thread" where
  "producer vs = \<lparr>th_consumer = False, th_pushes = vs, th_pc = Idle, th_popped = [], th_done = False\<rparr>"

definition consumer :: "'a thread" where
  "consumer = \<lparr>th_consumer = True, th_pushes = [], th_pc = Idle, th_popped = [], th_done = False\<rparr>"

definition pop_returns :: "'a option \<Rightarrow> 'a thread \<Rightarrow> 'a thread" where
  "pop_returns res t =
     (case res of
        None \<Rightarrow> t\<lparr>th_pc := Idle, th_done := True\<rparr>
      | Some v \<Rightarrow> t\<lparr>th_pc := Idle, th_popped := th_popped t @ [v]\<rparr>)"

text \<open>One step of a thread on the shared queue.\<close>

definition thread_step :: "'a thread \<Rightarrow> 'a Queue_TS \<Rightarrow> ('a thread \<times> 'a Queue_TS) result option" where
  "thread_step t q =
     (case th_pc t of
        Idle \<Rightarrow>
          if th_done t then Some (Ok (t, q))
          else if th_consumer t then Some (Ok (t\<lparr>th_pc := Pop_Find_Slot 0\<rparr>, q))
          else (case th_pushes t of
                  [] \<Rightarrow> Some (Ok (t\<lparr>th_done := True\<rparr>, q))
                | v # vs \<Rightarrow>
                    let (new_node, q1) = new_qnode q
                    in Some (Ok (t\<lparr>th_pushes := vs, th_pc := Push_Load v new_node\<rparr>, q1)))
      | Push_Load v new_node \<Rightarrow>
          Some (Ok (t\<lparr>th_pc := Push_CAS v new_node (q_tail q)\<rparr>, q))
      | Push_CAS v new_node old_tail \<Rightarrow>
          (case old_tail of
             None \<Rightarrow> Some (Fault Null_Dereference)
           | Some ot \<Rightarrow>
               (case q_nodes q ot of
                  None \<Rightarrow> Some (Fault Dangling_Pointer)
                | Some n \<Rightarrow>
                    if qn_data n = None
                    then Some (Ok (t\<lparr>th_pc := Push_Link new_node ot\<rparr>,
                                   q\<lparr>q_nodes := (q_nodes q)(ot \<mapsto> n\<lparr>qn_data := Some v\<rparr>)\<rparr>))
                    else Some (Ok (t\<lparr>th_pc := Push_Load v new_node\<rparr>, q))))
      | Push_Link new_node ot \<Rightarrow>
          (case q_nodes q ot of
             None \<Rightarrow> Some (Fault Dangling_Pointer)
           | Some n \<Rightarrow>
               Some (Ok (t\<lparr>th_pc := Push_Publish new_node\<rparr>,
                         q\<lparr>q_nodes := (q_nodes q)(ot \<mapsto> n\<lparr>qn_next := Some new_node\<rparr>)\<rparr>)))
      | Push_Publish new_node \<Rightarrow>
          Some (Ok (t\<lparr>th_pc := Idle\<rparr>, q\<lparr>q_tail := Some new_node\<rparr>))
      | Pop_Find_Slot slot \<Rightarrow>
          if slot < length (q_hazard_holder q) then
            let hz = q_hazard_holder q ! slot;
                taken = hz_taken hz;
                q1 = q\<lparr>q_hazard_holder := (q_hazard_holder q)[slot := hz\<lparr>hz_taken := True\<rparr>]\<rparr>
            in if \<not> taken then Some (Ok (t\<lparr>th_pc := Pop_Load_Head slot\<rparr>, q1))
               else if q_hazard_holder_size q1 = 0 then Some (Fault Division_By_Zero)
               else Some (Ok (t\<lparr>th_pc := Pop_Find_Slot ((slot + 1) mod q_hazard_holder_size q1)\<rparr>, q1))
          else Some (Fault Out_Of_Bounds)
      | Pop_Load_Head slot \<Rightarrow>
          Some (Ok (t\<lparr>th_pc := Pop_Publish slot (q_head q)\<rparr>, q))
      | Pop_Publish slot old_head \<Rightarrow>
          if slot < length (q_hazard_holder q) then
            Some (Ok (t\<lparr>th_pc := Pop_Validate slot old_head\<rparr>,
                      q\<lparr>q_hazard_holder :=
                           (q_hazard_holder q)[slot := (q_hazard_holder q ! slot)\<lparr>hz_pointer := old_head\<rparr>]\<rparr>))
          else Some (Fault Out_Of_Bounds)
      | Pop_Validate slot old_head \<Rightarrow>
          if old_head \<noteq> q_head q then Some (Ok (t\<lparr>th_pc := Pop_Load_Head slot\<rparr>, q))
          else Some (Ok (t\<lparr>th_pc := Pop_Claim slot old_head\<rparr>, q))
      | Pop_Claim slot old_head \<Rightarrow>
          (case old_head of
             None \<Rightarrow> Some (Fault Null_Dereference)
           | Some h \<Rightarrow>
               (case q_nodes q h of
                  None \<Rightarrow> Some (Fault Dangling_Pointer)
                | Some n \<Rightarrow>
                    Some (Ok (t\<lparr>th_pc := Pop_Clear slot h (qn_taken n)\<rparr>,
                              q\<lparr>q_nodes := (q_nodes q)(h \<mapsto> n\<lparr>qn_taken := True\<rparr>)\<rparr>))))
      | Pop_Clear slot h taken \<Rightarrow>
          then_do (Some (clear_hazard slot q)) (\<lambda>q1.
            if \<not> taken then Some (Ok (t\<lparr>th_pc := Pop_Check_Tail h\<rparr>, q1))
            else Some (Ok (t\<lparr>th_pc := Pop_Find_Slot 0\<rparr>, q1)))
      | Pop_Check_Tail h \<Rightarrow>
          if Some h = q_tail q then Some (Ok (t\<lparr>th_pc := Pop_Release h\<rparr>, q))
          else Some (Ok (t\<lparr>th_pc := Pop_Unlink h\<rparr>, q))
      | Pop_Release h \<Rightarrow>
          (case q_nodes q h of
             None \<Rightarrow> Some (Fault Dangling_Pointer)
           | Some n \<Rightarrow>
               Some (Ok (pop_returns None t,
                         q\<lparr>q_nodes := (q_nodes q)(h \<mapsto> n\<lparr>qn_taken := False\<rparr>)\<rparr>)))
      | Pop_Unlink h \<Rightarrow>
          (case q_nodes q h of
             None \<Rightarrow> Some (Fault Dangling_Pointer)
           | Some n \<Rightarrow> Some (Ok (t\<lparr>th_pc := Pop_Take h\<rparr>, q\<lparr>q_head := qn_next n\<rparr>)))
      | Pop_Take h \<Rightarrow>
          (case q_nodes q h of
             None \<Rightarrow> Some (Fault Dangling_Pointer)
           | Some n \<Rightarrow>
               Some (Ok (t\<lparr>th_pc := Pop_Scan h (qn_data n)\<rparr>,
                         q\<lparr>q_nodes := (q_nodes q)(h \<mapsto> n\<lparr>qn_data := None, qn_next := None\<rparr>)\<rparr>)))
      | Pop_Scan h res \<Rightarrow>
          (case is_hazardous q (Some h) of
             Fault e \<Rightarrow> Some (Fault e)
           | Ok b \<Rightarrow> Some (Ok (t\<lparr>th_pc := Pop_Dispose h res b\<rparr>, q)))
      | Pop_Dispose h res b \<Rightarrow>
          then_do (if b then Some (push_to_garbage h q) else delete_qnode h q) (\<lambda>q1.
            Some (Ok (t\<lparr>th_pc := Pop_Sweep res\<rparr>, q1)))
      | Pop_Sweep res \<Rightarrow>
          then_do (if is_garbage_full q then queue_collect_garbage q else Some (Ok q)) (\<lambda>q1.
            Some (Ok (pop_returns res t, q1))))"

text \<open>A schedule names the thread that makes the next step.\<close>

fun run :: "nat list \<Rightarrow> 'a thread list \<Rightarrow> 'a Queue_TS \<Rightarrow> ('a thread list \<times> 'a Queue_TS) result option" where
  "run [] ts q = Some (Ok (ts, q))"
| "run (i # sched) ts q =
     (if i < length ts
      then then_do (thread_step (ts ! i) q) (\<lambda>(t1, q1). run sched (ts[i := t1]) q1)
      else Some (Fault Out_Of_Bounds))"


section \<open>Threads on one stack\<close>

text \<open>
  Threads that call \<^verbatim>\<open>Stack_TS::pop\<close> interleave at its shared-memory accesses, under
  sequential consistency as for the queue. A program counter names the statement a thread
  executes next and carries the locals of the call:
  \<^item> \<open>SPop_Enter\<close>: the call; the next step enters \<^verbatim>\<open>get_hazard_pointer\<close> (lines 218-220);
  \<^item> \<open>SPop_Get_Slot\<close>: \<^verbatim>\<open>hazard_thread_id.compare_exchange_strong(default_id, this_thread_id)\<close>
    on the slot \<open>idx\<close> (line 155); when \<open>idx\<close> has reached \<^verbatim>\<open>hazard_max_size\<close> the \<^verbatim>\<open>for\<close> loop
    is over, \<^verbatim>\<open>nullptr\<close> is returned and \<^verbatim>\<open>while(!hp)\<close> calls again (lines 151, 160, 219-220);
  \<^item> \<open>SPop_Load_Head\<close>: \<^verbatim>\<open>old_head = head.load()\<close> in \<^verbatim>\<open>set_hazard_pointer\<close> (line 166);
  \<^item> \<open>SPop_Publish\<close>: \<^verbatim>\<open>hp->pointer.store(old_head)\<close> (line 167);
  \<^item> \<open>SPop_Read_Next\<close>: the loop condition of line 228 up to its argument: \<^verbatim>\<open>old_head\<close> is
    tested and, when it is not null, \<^verbatim>\<open>old_head->next\<close> is read;
  \<^item> \<open>SPop_CAS\<close>: \<^verbatim>\<open>head.compare_exchange_strong(old_head, old_head->next)\<close> with the value
    just read (line 228); when it fails the loop body runs again;
  \<^item> \<open>SPop_Clear\<close>: \<^verbatim>\<open>clear_hazard_pointer(hp)\<close> and \<^verbatim>\<open>if(!old_head) return\<close> (lines 230-233);
  \<^item> \<open>SPop_Take\<close>: \<^verbatim>\<open>res.swap(old_head->data)\<close> and \<^verbatim>\<open>old_head->next = nullptr\<close>
    (lines 235-237);
  \<^item> \<open>SPop_Scan\<close>: \<^verbatim>\<open>hazard_existed(old_head)\<close> (line 239);
  \<^item> \<open>SPop_Dispose\<close>: \<^verbatim>\<open>delete old_head\<close> or \<^verbatim>\<open>claim_later(old_head)\<close> (lines 240-242);
  \<^item> \<open>SPop_Sweep\<close>: \<^verbatim>\<open>collect_garbage()\<close> (line 244);
  \<^item> \<open>SPop_Returned\<close>: \<^verbatim>\<open>pop\<close> has returned the value (line 246, or line 233).

  The steps \<open>SPop_Clear\<close>, \<open>SPop_Take\<close>, \<open>SPop_Scan\<close>, \<open>SPop_Dispose\<close> and \<open>SPop_Sweep\<close> stand for
  several accesses and run them without another thread in between, by the functions of the
  sequential model; every run of this machine is a run of the program.
\<close>

datatype spc =
    SPop_Enter
  | SPop_Get_Slot nat
  | SPop_Load_Head nat
  | SPop_Publish nat "addr option"
  | SPop_Read_Next nat "addr option"
  | SPop_CAS nat addr "addr option"
  | SPop_Clear nat "addr option"
  | SPop_Take addr
  | SPop_Scan addr "long option"
  | SPop_Dispose addr "long option" bool
  | SPop_Sweep "long option"
  | SPop_Returned "long option"

text \<open>A thread has its \<^verbatim>\<open>std::this_thread::get_id()\<close> and is somewhere in one call of \<^verbatim>\<open>pop\<close>.\<close>

record sthread =
  sth_id :: nat
  sth_pc :: spc

definition popper :: "nat \<Rightarrow> sthread" where
  "popper this_thread_id = \<lparr>sth_id = this_thread_id, sth_pc = SPop_Enter\<rparr>"

text \<open>One step of a thread on the shared stack.\<close>

definition sthread_step :: "sthread \<Rightarrow> smem \<Rightarrow> Stack_TS \<Rightarrow> (sthread \<times> smem \<times> Stack_TS) result option" where
  "sthread_step t m s =
     (case sth_pc t of
        SPop_Enter \<Rightarrow> Some (Ok (t\<lparr>sth_pc := SPop_Get_Slot 0\<rparr>, m, s))
      | SPop_Get_Slot idx \<Rightarrow>
          if idx < s_hazard_max_size s then
            (case hazard_at s idx of
               Fault e \<Rightarrow> Some (Fault e)
             | Ok hz \<Rightarrow>
                 if hp_thread_id hz = None
                 then Some (Ok (t\<lparr>sth_pc := SPop_Load_Head idx\<rparr>, m,
                                hazard_store s idx (hz\<lparr>hp_thread_id := Some (sth_id t)\<rparr>)))
                 else Some (Ok (t\<lparr>sth_pc := SPop_Get_Slot (Suc idx)\<rparr>, m, s)))
          else Some (Ok (t\<lparr>sth_pc := SPop_Get_Slot 0\<rparr>, m, s))
      | SPop_Load_Head hp \<Rightarrow>
          Some (Ok (t\<lparr>sth_pc := SPop_Publish hp (s_head s)\<rparr>, m, s))
      | SPop_Publish hp old_head \<Rightarrow>
          (case hazard_at s hp of
             Fault e \<Rightarrow> Some (Fault e)
           | Ok hz \<Rightarrow>
               Some (Ok (t\<lparr>sth_pc := SPop_Read_Next hp old_head\<rparr>, m,
                         hazard_store s hp (hz\<lparr>hp_pointer := old_head\<rparr>))))
      | SPop_Read_Next hp old_head \<Rightarrow>
          (case old_head of
             None \<Rightarrow> Some (Ok (t\<lparr>sth_pc := SPop_Clear hp None\<rparr>, m, s))
           | Some p \<Rightarrow>
               (case sm_nodes m p of
                  None \<Rightarrow> Some (Fault Dangling_Pointer)
                | Some n \<Rightarrow> Some (Ok (t\<lparr>sth_pc := SPop_CAS hp p (sn_next n)\<rparr>, m, s))))
      | SPop_CAS hp p nxt \<Rightarrow>
          if s_head s = Some p
          then Some (Ok (t\<lparr>sth_pc := SPop_Clear hp (Some p)\<rparr>, m, s\<lparr>s_head := nxt\<rparr>))
          else Some (Ok (t\<lparr>sth_pc := SPop_Load_Head hp\<rparr>, m, s))
      | SPop_Clear hp old_head \<Rightarrow>
          then_do (Some (clear_hazard_pointer hp s)) (\<lambda>s1.
            case old_head of
              None \<Rightarrow> Some (Ok (t\<lparr>sth_pc := SPop_Returned None\<rparr>, m, s1))
            | Some p \<Rightarrow> Some (Ok (t\<lparr>sth_pc := SPop_Take p\<rparr>, m, s1)))
      | SPop_Take p \<Rightarrow>
          (case sm_nodes m p of
             None \<Rightarrow> Some (Fault Dangling_Pointer)
           | Some n \<Rightarrow>
               Some (Ok (t\<lparr>sth_pc := SPop_Scan p (sn_data n)\<rparr>,
                         m\<lparr>sm_nodes := (sm_nodes m)(p \<mapsto> n\<lparr>sn_data := None, sn_next := None\<rparr>)\<rparr>, s)))
      | SPop_Scan p res \<Rightarrow>
          (case hazard_existed s (Some p) of
             Fault e \<Rightarrow> Some (Fault e)
           | Ok b \<Rightarrow> Some (Ok (t\<lparr>sth_pc := SPop_Dispose p res b\<rparr>, m, s)))
      | SPop_Dispose p res b \<Rightarrow>
          then_do (if \<not> b then then_do (delete_snode p m) (\<lambda>m1. Some (Ok (m1, s)))
                   else Some (claim_later p m s)) (\<lambda>(m1, s1).
            Some (Ok (t\<lparr>sth_pc := SPop_Sweep res\<rparr>, m1, s1)))
      | SPop_Sweep res \<Rightarrow>
          then_do (stack_collect_garbage m s) (\<lambda>(m1, s1).
            Some (Ok (t\<lparr>sth_pc := SPop_Returned res\<rparr>, m1, s1)))
      | SPop_Returned res \<Rightarrow> Some (Ok (t, m, s)))"

fun srun :: "nat list \<Rightarrow> sthread list \<Rightarrow> smem \<Rightarrow> Stack_TS \<Rightarrow> (sthread list \<times> smem \<times> Stack_TS) result option" where
  "srun [] ts m s = Some (Ok (ts, m, s))"
| "srun (i # sched) ts m s =
     (if i < length ts
      then then_do (sthread_step (ts ! i) m s) (\<lambda>(t1, m1, s1). srun sched (ts[i := t1]) m1 s1)
      else Some (Fault Out_Of_Bounds))"

section \<open>Single-threaded use: abstraction and invariants\<close>

text \<open>
  The live list of a stack: the addresses and payloads met from \<^verbatim>\<open>head\<close> along \<^verbatim>\<open>next\<close>
  down to \<^verbatim>\<open>nullptr\<close>.
\<close>

fun schain :: "(addr \<rightharpoonup> snode) \<Rightarrow> addr option \<Rightarrow> (addr \<times> long) list \<Rightarrow> bool" where
  "schain h p [] = (p = None)"
| "schain h p ((a, v) # xs) =
     (p = Some a \<and> (case h a of None \<Rightarrow> False | Some n \<Rightarrow> sn_data n = Some v \<and> schain h (sn_next n) xs))"

text \<open>No thread holds a slot of the stack's hazard table.\<close>

definition hazards_clear :: "Stack_TS \<Rightarrow> bool" where
  "hazards_clear s =
     (s_hazard_arr s = Some (replicate (s_hazard_max_size s) \<lparr>hp_thread_id = None, hp_pointer = None\<rparr>))"

text \<open>
  What holds of a stack between the calls of a single thread: a live list of distinct
  allocated nodes, no garbage, a hazard table of at least one slot that nobody holds.
\<close>

definition stack_inv :: "smem \<Rightarrow> Stack_TS \<Rightarrow> (addr \<times> long) list \<Rightarrow> bool" where
  "stack_inv m s xs =
     (schain (sm_nodes m) (s_head s) xs \<and> distinct (map fst xs) \<and>
      list_all (\<lambda>a. a < sm_fresh m) (map fst xs) \<and>
      s_garbage s = None \<and> hazards_clear s \<and> 0 < s_hazard_max_size s)"

text \<open>A sequence of calls by one thread; the result lists what the pops returned.\<close>

datatype sop = SPush long | SPop

fun stack_run :: "nat \<Rightarrow> sop list \<Rightarrow> smem \<Rightarrow> Stack_TS \<Rightarrow> (long option list \<times> smem \<times> Stack_TS) result option" where
  "stack_run t [] m s = Some (Ok ([], m, s))"
| "stack_run t (SPush v # ops) m s = (let (m1, s1) = stack_push v m s in stack_run t ops m1 s1)"
| "stack_run t (SPop # ops) m s =
     then_do (stack_pop t m s) (\<lambda>(r, m1, s1).
     then_do (stack_run t ops m1 s1) (\<lambda>(rs, m2, s2). Some (Ok (r # rs, m2, s2))))"

text \<open>The specification: a last-in first-out list, popped values in reverse push order.\<close>

fun lifo :: "sop list \<Rightarrow> long list \<Rightarrow> long option list" where
  "lifo [] st = []"
| "lifo (SPush v # ops) st = lifo ops (v # st)"
| "lifo (SPop # ops) [] = None # lifo ops []"
| "lifo (SPop # ops) (x # st) = Some x # lifo ops st"

text \<open>
  The live list of a queue: the addresses and payloads met from \<^verbatim>\<open>head\<close> along \<^verbatim>\<open>next\<close>
  up to the node \<open>t\<close>, each node filled and not claimed by a pop.
\<close>

fun qchain :: "(addr \<rightharpoonup> 'a qnode) \<Rightarrow> addr option \<Rightarrow> (addr \<times> 'a) list \<Rightarrow> addr \<Rightarrow> bool" where
  "qchain h p [] t = (p = Some t)"
| "qchain h p ((a, v) # xs) t =
     (p = Some a \<and>
      (case h a of
         None \<Rightarrow> False
       | Some n \<Rightarrow> \<not> qn_taken n \<and> qn_data n = Some v \<and> qchain h (qn_next n) xs t))"

text \<open>
  What holds of a queue between the calls of a single thread: the live list ends in the
  tail node, which is empty; no garbage; a hazard table of at least one slot, all free.
\<close>

definition queue_inv :: "'a Queue_TS \<Rightarrow> (addr \<times> 'a) list \<Rightarrow> bool" where
  "queue_inv q xs =
     (case q_tail q of
        None \<Rightarrow> False
      | Some t \<Rightarrow>
          qchain (q_nodes q) (q_head q) xs t \<and> q_nodes q t = Some qnode_ctor \<and>
          distinct (t # map fst xs) \<and> list_all (\<lambda>a. a < q_fresh q) (t # map fst xs) \<and>
          q_garbage q = None \<and> q_garbage_size q = 0 \<and>
          q_hazard_holder q = replicate (q_hazard_holder_size q) hazard_ctor \<and>
          0 < q_hazard_holder_size q)"

definition slots_clear :: "'a Queue_TS \<Rightarrow> bool" where
  "slots_clear q = (q_hazard_holder q = replicate (q_hazard_holder_size q) hazard_ctor)"

datatype 'a qop = QPush 'a | QPop

fun queue_run :: "'a qop list \<Rightarrow> 'a Queue_TS \<Rightarrow> ('a option list \<times> 'a Queue_TS) result option" where
  "queue_run [] q = Some (Ok ([], q))"
| "queue_run (QPush v # ops) q = then_do (queue_push v q) (\<lambda>q1. queue_run ops q1)"
| "queue_run (QPop # ops) q =
     then_do (queue_pop q) (\<lambda>(r, q1).
     then_do (queue_run ops q1) (\<lambda>(rs, q2). Some (Ok (r # rs, q2))))"

text \<open>The specification: a first-in first-out list, values dequeued in the order pushed.\<close>

fun fifo :: "'a qop list \<Rightarrow> 'a list \<Rightarrow> 'a option list" where
  "fifo [] xs = []"
| "fifo (QPush v # ops) xs = fifo ops (xs @ [v])"
| "fifo (QPop # ops) [] = None # fifo ops []"
| "fifo (QPop # ops) (x # xs) = Some x # fifo ops xs"

text \<open>
  The garbage list of a queue: the addresses met from a pointer along \<^verbatim>\<open>next\<close> down to
  \<^verbatim>\<open>nullptr\<close>, every node allocated.
\<close>

fun qlist :: "(addr \<rightharpoonup> 'a qnode) \<Rightarrow> addr option \<Rightarrow> addr list \<Rightarrow> bool" where
  "qlist h p [] = (p = None)"
| "qlist h p (a # as) =
     (p = Some a \<and> (case h a of None \<Rightarrow> False | Some n \<Rightarrow> qlist h (qn_next n) as))"



text \<open>
  Schedules of the machine of threads, each entry the index of the thread that makes the
  next step. In the first the threads take turns call by call: the producer pushes, the
  consumer pops, three times over, and the consumer pops once more.
\<close>

definition sequential_schedule :: "nat list" where
  "sequential_schedule = [0, 0, 0, 0, 0, 1, 1, 1, 1, 1, 1, 1, 1, 1, 1, 1, 1, 1, 0, 0, 0, 0, 0, 1, 1, 1, 1, 1, 1, 1, 1, 1, 1, 1, 1, 1, 0, 0, 0, 0, 0, 1, 1, 1, 1, 1, 1, 1, 1, 1, 1, 1, 1, 1, 0, 1, 1, 1, 1, 1, 1, 1, 1, 1]"

definition lost_value_schedule :: "nat list" where
  "lost_value_schedule = [1, 1, 0, 0, 0, 0, 0, 0, 3, 3, 3, 3, 2, 2, 2, 2, 2, 2, 2, 2, 2, 2, 2, 2, 2, 2, 2, 2, 2, 2, 2, 2, 2, 2, 2, 2, 1, 1, 1, 1, 3, 3, 3, 3, 3, 3, 3, 3, 3, 3, 3, 3]"

definition late_publish_schedule :: "nat list" where
  "late_publish_schedule = [0, 0, 0, 0, 0, 0, 2, 2, 2, 1, 1, 1, 1, 1, 1, 1, 1, 1, 1, 1, 1, 2]"



section \<open>One caller of the queue while other threads hold hazard slots\<close>

text \<open>
  One thread calls \<^verbatim>\<open>push\<close> and \<^verbatim>\<open>pop\<close>. Between its calls other threads, each somewhere in
  \<^verbatim>\<open>load_head_set_hazard\<close> or in \<^verbatim>\<open>clear_hazard\<close>, change the hazard table by the statements
  \<^verbatim>\<open>hazard_holder[slot].taken.test_and_set()\<close> (line 145),
  \<^verbatim>\<open>hazard_holder[slot].pointer.store(old_head)\<close> (line 159) and \<^verbatim>\<open>clear_hazard(slot)\<close>
  (lines 169-170). The pointer another thread stores is the head it loaded at some earlier
  time, so any pointer may be stored. An event is a call of the one thread or one such
  statement of another thread.
\<close>

datatype 'a event = Call "'a qop" | Other_Take nat | Other_Publish nat "addr option" | Other_Clear nat

definition other_take :: "nat \<Rightarrow> 'a Queue_TS \<Rightarrow> 'a Queue_TS result" where
  "other_take slot q =
     (if slot < length (q_hazard_holder q)
      then Ok (q\<lparr>q_hazard_holder := (q_hazard_holder q)[slot := (q_hazard_holder q ! slot)\<lparr>hz_taken := True\<rparr>]\<rparr>)
      else Fault Out_Of_Bounds)"

definition other_publish :: "nat \<Rightarrow> addr option \<Rightarrow> 'a Queue_TS \<Rightarrow> 'a Queue_TS result" where
  "other_publish slot p q =
     (if slot < length (q_hazard_holder q)
      then Ok (q\<lparr>q_hazard_holder := (q_hazard_holder q)[slot := (q_hazard_holder q ! slot)\<lparr>hz_pointer := p\<rparr>]\<rparr>)
      else Fault Out_Of_Bounds)"

text \<open>One event: the values returned (one for a \<^verbatim>\<open>pop\<close>, none otherwise), then the state.\<close>

fun event_step :: "'a event \<Rightarrow> 'a Queue_TS \<Rightarrow> ('a option list \<times> 'a Queue_TS) result option" where
  "event_step (Call (QPush v)) q = then_do (queue_push v q) (\<lambda>q1. Some (Ok ([], q1)))"
| "event_step (Call QPop) q = then_do (queue_pop q) (\<lambda>(r, q1). Some (Ok ([r], q1)))"
| "event_step (Other_Take slot) q = then_do (Some (other_take slot q)) (\<lambda>q1. Some (Ok ([], q1)))"
| "event_step (Other_Publish slot p) q = then_do (Some (other_publish slot p q)) (\<lambda>q1. Some (Ok ([], q1)))"
| "event_step (Other_Clear slot) q = then_do (Some (clear_hazard slot q)) (\<lambda>q1. Some (Ok ([], q1)))"

fun events_run :: "'a event list \<Rightarrow> 'a Queue_TS \<Rightarrow> ('a option list \<times> 'a Queue_TS) result option" where
  "events_run [] q = Some (Ok ([], q))"
| "events_run (ev # evs) q =
     then_do (event_step ev q) (\<lambda>(rs1, q1).
     then_do (events_run evs q1) (\<lambda>(rs2, q2). Some (Ok (rs1 @ rs2, q2))))"



text \<open>
  The caller pushes 1 and 2. A consumer stalls after publishing node 1 in slot 0, the
  caller pops, another consumer stalls after publishing node 2 in slot 1, the caller pops.
\<close>

definition stalled_consumers :: "int event list" where
  "stalled_consumers =
     [Call (QPush 1), Call (QPush 2), Other_Take 0, Other_Publish 0 (Some 1), Call QPop,
      Other_Take 1, Other_Publish 1 (Some 2), Call QPop]"

text \<open>
  A stack that holds one pushed value, in node 1, and schedules of the machine of stack
  threads and of the machine of queue threads.
\<close>

definition one_value_stack :: "smem \<times> Stack_TS" where
  "one_value_stack = stack_push 5 \<lparr>sm_nodes = Map.empty, sm_fresh = 1\<rparr> (Stack_TS_init 32)"

definition whole_pop_schedule :: "nat list" where
  "whole_pop_schedule = [0, 0, 0, 0, 0, 0, 0, 0, 0, 0, 0]"

definition stack_late_publish_schedule :: "nat list" where
  "stack_late_publish_schedule = [0, 0, 0, 1, 1, 1, 1, 1, 1, 1, 1, 1, 1, 0]"

definition cascade_schedule :: "nat list" where
  "cascade_schedule = [1, 1, 0, 0, 0, 0, 0, 0, 2, 2, 2, 2, 2, 2, 2, 2, 2, 2, 2, 1, 1, 1]"

section \<open>The stack used by one thread\<close>

declare hazard_existed_from.simps [simp del] get_hazard_pointer_from.simps [simp del]

lemma schain_upd_other:
  "a \<notin> set (map fst xs) \<Longrightarrow> schain (h(a := x)) p xs = schain h p xs"
  by (induction xs arbitrary: p) (auto split: option.splits)

lemma hazard_existed_from_eq:
  "s_hazard_arr s = Some arr \<Longrightarrow> s_hazard_max_size s \<le> length arr \<Longrightarrow>
   hazard_existed_from idx s d =
     Ok (\<exists>i. idx \<le> i \<and> i < s_hazard_max_size s \<and> hp_pointer (arr ! i) = d)"
proof (induction idx s d rule: hazard_existed_from.induct)
  case (1 idx s d)
  show ?case
  proof (cases "idx < s_hazard_max_size s")
    case False
    then show ?thesis by (subst hazard_existed_from.simps) auto
  next
    case True
    show ?thesis
    proof (cases "hp_pointer (arr ! idx) = d")
      case True
      with \<open>idx < s_hazard_max_size s\<close> "1.prems" show ?thesis
        by (subst hazard_existed_from.simps) (auto simp: hazard_at_def)
    next
      case False
      have "hazard_existed_from (Suc idx) s d =
              Ok (\<exists>i. Suc idx \<le> i \<and> i < s_hazard_max_size s \<and> hp_pointer (arr ! i) = d)"
        using "1.IH" [of "arr ! idx"] True False "1.prems" by (simp add: hazard_at_def)
      moreover have "(\<exists>i. Suc idx \<le> i \<and> i < s_hazard_max_size s \<and> hp_pointer (arr ! i) = d) =
                     (\<exists>i. idx \<le> i \<and> i < s_hazard_max_size s \<and> hp_pointer (arr ! i) = d)"
        using False by (metis Suc_leD Suc_leI le_neq_implies_less)
      ultimately show ?thesis
        using True False "1.prems" by (subst hazard_existed_from.simps) (simp add: hazard_at_def)
    qed
  qed
qed

lemma hazard_existed_clear:
  "hazards_clear s \<Longrightarrow> hazard_existed s (Some p) = Ok False"
  unfolding hazard_existed_def hazards_clear_def
  by (subst hazard_existed_from_eq) auto

lemma get_hazard_pointer_clear:
  "hazards_clear s \<Longrightarrow> 0 < s_hazard_max_size s \<Longrightarrow>
   get_hazard_pointer t s =
     Ok (Some 0, hazard_store s 0 \<lparr>hp_thread_id = Some t, hp_pointer = None\<rparr>)"
  unfolding get_hazard_pointer_def hazards_clear_def
  by (subst get_hazard_pointer_from.simps) (simp add: hazard_at_def)

lemma stack_acquire_clear:
  "hazards_clear s \<Longrightarrow> 0 < s_hazard_max_size s \<Longrightarrow>
   stack_acquire t s = Some (Ok (0, hazard_store s 0 \<lparr>hp_thread_id = Some t, hp_pointer = None\<rparr>))"
  by (subst stack_acquire.simps) (simp add: get_hazard_pointer_clear)

lemma replicate_update_same: "(replicate n x)[i := x] = replicate n x"
  by (induction n arbitrary: i) (auto split: nat.splits)

lemma stack_unlink_null:
  "hazard_at s hp = Ok hz \<Longrightarrow> s_head s = None \<Longrightarrow>
   stack_unlink hp m s = Some (Ok (None, hazard_store s hp (hz\<lparr>hp_pointer := None\<rparr>)))"
  by (subst stack_unlink.simps) (simp add: set_hazard_pointer_def Let_def)

lemma stack_unlink_head:
  "hazard_at s hp = Ok hz \<Longrightarrow> s_head s = Some a \<Longrightarrow> sm_nodes m a = Some n \<Longrightarrow>
   stack_unlink hp m s =
     Some (Ok (Some a, (hazard_store s hp (hz\<lparr>hp_pointer := Some a\<rparr>))\<lparr>s_head := sn_next n\<rparr>))"
  by (subst stack_unlink.simps) (simp add: set_hazard_pointer_def Let_def hazard_store_def)

lemma delete_snode_single:
  "sm_nodes m p = Some n \<Longrightarrow> sn_next n = None \<Longrightarrow>
   delete_snode p m = Some (Ok (m\<lparr>sm_nodes := (sm_nodes m)(p := None)\<rparr>))"
  by (subst delete_snode.simps) simp

lemma stack_collect_garbage_none:
  "s_garbage s = None \<Longrightarrow> stack_collect_garbage m s = Some (Ok (m, s))"
  unfolding stack_collect_garbage_def
  by (subst stack_collect_loop.simps) (simp add: Stack_TS.equality)

lemma stack_push_inv:
  assumes "stack_inv m s xs"
  shows "stack_inv (fst (stack_push v m s)) (snd (stack_push v m s)) ((sm_fresh m, v) # xs)"
proof -
  have fresh: "sm_fresh m \<notin> set (map fst xs)"
    using assms by (auto simp: stack_inv_def list_all_iff)
  have "list_all (\<lambda>a. a < Suc (sm_fresh m)) (map fst xs)"
    using assms by (auto simp: stack_inv_def list_all_iff less_Suc_eq)
  with assms fresh show ?thesis
    by (simp add: stack_inv_def stack_push_def Let_def snode_ctor_def schain_upd_other
        hazards_clear_def del: fun_upd_apply) (simp add: schain_upd_other)
qed

lemma stack_pop_empty:
  assumes "stack_inv m s []"
  shows "stack_pop t m s = Some (Ok (None, m, s))"
proof -
  from assms have hc: "hazards_clear s" and pos: "0 < s_hazard_max_size s" and hd: "s_head s = None"
    by (simp_all add: stack_inv_def)
  define s1 where "s1 = hazard_store s 0 \<lparr>hp_thread_id = Some t, hp_pointer = None\<rparr>"
  have at1: "hazard_at s1 0 = Ok \<lparr>hp_thread_id = Some t, hp_pointer = None\<rparr>"
    and hd1: "s_head s1 = None"
    using hc pos hd by (simp_all add: s1_def hazard_at_def hazard_store_def hazards_clear_def)
  have ul: "stack_unlink 0 m s1 = Some (Ok (None, s1))"
    using stack_unlink_null [OF at1 hd1, of m] hc
    by (simp add: s1_def hazard_store_def hazards_clear_def)
  have cl: "clear_hazard_pointer 0 s1 = Ok s"
    using hc pos
    by (simp add: clear_hazard_pointer_def at1)
       (simp add: s1_def hazard_store_def hazards_clear_def replicate_update_same Stack_TS.equality)
  show ?thesis
    using hc pos by (simp add: stack_pop_def stack_acquire_clear s1_def [symmetric] ul cl)
qed

lemma stack_pop_nonempty:
  assumes "stack_inv m s ((a, v) # xs)"
  shows "\<exists>m' s'. stack_pop t m s = Some (Ok (Some v, m', s')) \<and> stack_inv m' s' xs"
proof -
  from assms have hc: "hazards_clear s" and pos: "0 < s_hazard_max_size s" and hd: "s_head s = Some a"
    and g: "s_garbage s = None"
    by (simp_all add: stack_inv_def)
  from assms obtain n where n: "sm_nodes m a = Some n" "sn_data n = Some v"
    and rest: "schain (sm_nodes m) (sn_next n) xs"
    by (auto simp: stack_inv_def split: option.splits)
  from assms have a_notin: "a \<notin> set (map fst xs)" and dist: "distinct (map fst xs)"
    and lt: "list_all (\<lambda>a. a < sm_fresh m) (map fst xs)"
    by (simp_all add: stack_inv_def)
  define s1 where "s1 = hazard_store s 0 \<lparr>hp_thread_id = Some t, hp_pointer = None\<rparr>"
  define s2 where "s2 = (hazard_store s1 0 \<lparr>hp_thread_id = Some t, hp_pointer = Some a\<rparr>)\<lparr>s_head := sn_next n\<rparr>"
  define m1 where "m1 = m\<lparr>sm_nodes := (sm_nodes m)(a \<mapsto> n\<lparr>sn_data := None, sn_next := None\<rparr>)\<rparr>"
  let ?m' = "m\<lparr>sm_nodes := (sm_nodes m)(a := None)\<rparr>"
  let ?s' = "s\<lparr>s_head := sn_next n\<rparr>"
  have at1: "hazard_at s1 0 = Ok \<lparr>hp_thread_id = Some t, hp_pointer = None\<rparr>"
    and hd1: "s_head s1 = Some a"
    using hc pos hd by (simp_all add: s1_def hazard_at_def hazard_store_def hazards_clear_def)
  have ul: "stack_unlink 0 m s1 = Some (Ok (Some a, s2))"
    using stack_unlink_head [OF at1 hd1 n(1)] by (simp add: s2_def)
  have cl: "clear_hazard_pointer 0 s2 = Ok ?s'"
    using hc pos
    by (simp add: clear_hazard_pointer_def s2_def s1_def hazard_at_def hazard_store_def
        hazards_clear_def replicate_update_same Stack_TS.equality)
  have s3: "hazards_clear ?s'" using hc by (simp add: hazards_clear_def)
  have del: "delete_snode a m1 = Some (Ok ?m')"
    using delete_snode_single [of m1 a "n\<lparr>sn_data := None, sn_next := None\<rparr>"]
    by (simp add: m1_def)
  have pop: "stack_pop t m s = Some (Ok (Some v, ?m', ?s'))"
    using hc pos n g
    by (simp add: stack_pop_def stack_acquire_clear s1_def [symmetric] ul cl Let_def
        hazard_existed_clear [OF s3] m1_def [symmetric] del stack_collect_garbage_none)
  have "stack_inv ?m' ?s' xs"
    using rest a_notin dist lt g s3 pos by (simp add: stack_inv_def schain_upd_other)
  with pop show ?thesis by blast
qed

lemma stack_init_inv: "0 < n \<Longrightarrow> stack_inv m (Stack_TS_init n) []"
  by (simp add: stack_inv_def Stack_TS_init_def hazards_clear_def)

lemma stack_run_lifo:
  "stack_inv m s xs \<Longrightarrow> \<exists>m' s'. stack_run t ops m s = Some (Ok (lifo ops (map snd xs), m', s'))"
proof (induction ops arbitrary: m s xs)
  case Nil
  then show ?case by simp
next
  case (Cons op ops)
  show ?case
  proof (cases op)
    case (SPush v)
    have "stack_inv (fst (stack_push v m s)) (snd (stack_push v m s)) ((sm_fresh m, v) # xs)"
      using Cons.prems by (rule stack_push_inv)
    from Cons.IH [OF this, of ] show ?thesis
      using SPush by (auto simp: case_prod_beta)
  next
    case SPop
    show ?thesis
    proof (cases xs)
      case Nil
      with Cons.prems have "stack_pop t m s = Some (Ok (None, m, s))"
        by (simp add: stack_pop_empty)
      moreover from Cons.IH [OF Cons.prems] obtain m' s' where
        "stack_run t ops m s = Some (Ok (lifo ops (map snd xs), m', s'))" by blast
      ultimately show ?thesis using SPop Nil by simp
    next
      case (Cons av xs')
      obtain a v where av: "av = (a, v)" by (cases av)
      from stack_pop_nonempty [of m s a v xs' t] Cons.prems Cons av
      obtain m1 s1 where p: "stack_pop t m s = Some (Ok (Some v, m1, s1))" and i: "stack_inv m1 s1 xs'"
        by auto
      from Cons.IH [OF i] obtain m' s' where
        "stack_run t ops m1 s1 = Some (Ok (lifo ops (map snd xs'), m', s'))" by blast
      with p show ?thesis using SPop Cons av by simp
    qed
  qed
qed

lemma lifo_pushes: "lifo (map SPush vs @ ops) st = lifo ops (rev vs @ st)"
  by (induction vs arbitrary: st) auto

lemma lifo_drain: "lifo (replicate (Suc (length st)) SPop) st = map Some st @ [None]"
  by (induction st) auto

text \<open>
  C4. A stack with at least one hazard slot, used by one thread. Whatever sequence of
  \<^verbatim>\<open>push\<close> and \<^verbatim>\<open>pop\<close> calls is made on a fresh stack, every call returns and the pops
  return what a last-in first-out list returns (\<open>lifo\<close>); in particular, pushing \<open>vs\<close> and
  popping once more than \<open>vs\<close> is long returns the values in reverse push order, then the
  empty result. The witness is the scenario push 1, 2, 3, then four pops.
\<close>

theorem stack_lifo:
  assumes "0 < n"
  shows "(\<exists>m' s'. stack_run t ops m (Stack_TS_init n) = Some (Ok (lifo ops [], m', s'))) \<and>
         (\<exists>m' s'. stack_run t (map SPush vs @ replicate (Suc (length vs)) SPop) m (Stack_TS_init n) =
                    Some (Ok (map Some (rev vs) @ [None], m', s')))"
proof -
  have inv: "stack_inv m (Stack_TS_init n) []" using assms by (rule stack_init_inv)
  have "lifo (map SPush vs @ replicate (Suc (length vs)) SPop) [] = map Some (rev vs) @ [None]"
    using lifo_drain [of "rev vs"] by (simp add: lifo_pushes)
  with stack_run_lifo [OF inv, of t] show ?thesis by (metis list.simps(8))
qed

theorem stack_lifo_witness:
  "0 < (32::nat) \<and>
   (\<exists>m' s'. stack_run 7 [SPush 1, SPush 2, SPush 3, SPop, SPop, SPop, SPop]
               \<lparr>sm_nodes = Map.empty, sm_fresh = 1\<rparr> (Stack_TS_init 32) =
             Some (Ok ([Some 3, Some 2, Some 1, None], m', s')))"
  using stack_lifo [of 32 7 "[SPush 1, SPush 2, SPush 3, SPop, SPop, SPop, SPop]"
      "\<lparr>sm_nodes = Map.empty, sm_fresh = 1\<rparr>" "[]"]
  by simp

section \<open>The queue used by one thread\<close>

declare is_hazardous_from.simps [simp del]

lemma qchain_upd_other:
  "a \<notin> set (map fst xs) \<Longrightarrow> qchain (h(a := x)) p xs t = qchain h p xs t"
  by (induction xs arbitrary: p) (auto split: option.splits)

lemma qchain_append:
  "qchain h p xs t \<Longrightarrow> t \<notin> set (map fst xs) \<Longrightarrow>
   qchain (h(t \<mapsto> \<lparr>qn_taken = False, qn_data = Some v, qn_next = Some f\<rparr>)) p (xs @ [(t, v)]) f"
  by (induction xs arbitrary: p) (auto split: option.splits)

lemma is_hazardous_from_eq:
  "q_hazard_holder_size q \<le> length (q_hazard_holder q) \<Longrightarrow>
   is_hazardous_from i q d =
     Ok (\<exists>j. i \<le> j \<and> j < q_hazard_holder_size q \<and> hz_pointer (q_hazard_holder q ! j) = d)"
proof (induction i q d rule: is_hazardous_from.induct)
  case (1 i q d)
  show ?case
  proof (cases "i < q_hazard_holder_size q")
    case False
    then show ?thesis by (subst is_hazardous_from.simps) auto
  next
    case True
    show ?thesis
    proof (cases "hz_pointer (q_hazard_holder q ! i) = d")
      case True
      with \<open>i < q_hazard_holder_size q\<close> "1.prems" show ?thesis
        by (subst is_hazardous_from.simps) auto
    next
      case False
      have "is_hazardous_from (Suc i) q d =
              Ok (\<exists>j. Suc i \<le> j \<and> j < q_hazard_holder_size q \<and> hz_pointer (q_hazard_holder q ! j) = d)"
        using "1.IH" True False "1.prems" by simp
      moreover have "(\<exists>j. Suc i \<le> j \<and> j < q_hazard_holder_size q \<and> hz_pointer (q_hazard_holder q ! j) = d) =
                     (\<exists>j. i \<le> j \<and> j < q_hazard_holder_size q \<and> hz_pointer (q_hazard_holder q ! j) = d)"
        using False by (metis Suc_leD Suc_leI le_neq_implies_less)
      ultimately show ?thesis
        using True False "1.prems" by (subst is_hazardous_from.simps) simp
    qed
  qed
qed

lemma is_hazardous_clear:
  "slots_clear q \<Longrightarrow> is_hazardous q (Some p) = Ok False"
  unfolding is_hazardous_def slots_clear_def
  by (subst is_hazardous_from_eq) (auto simp: hazard_ctor_def)

lemma load_head_set_hazard_clear:
  assumes "slots_clear q" "0 < q_hazard_holder_size q"
  shows "load_head_set_hazard q =
     Some (Ok (q_head q, 0, q\<lparr>q_hazard_holder := (q_hazard_holder q)[0 := \<lparr>hz_taken = True, hz_pointer = q_head q\<rparr>]\<rparr>))"
proof -
  define q1 where "q1 = q\<lparr>q_hazard_holder := (q_hazard_holder q)[0 := \<lparr>hz_taken = True, hz_pointer = None\<rparr>]\<rparr>"
  have fs: "find_slot 0 q = Some (Ok (0, q1))"
    using assms by (subst find_slot.simps) (simp add: slots_clear_def hazard_ctor_def q1_def Let_def)
  have ph: "publish_head 0 q1 =
     Some (Ok (q_head q, q\<lparr>q_hazard_holder := (q_hazard_holder q)[0 := \<lparr>hz_taken = True, hz_pointer = q_head q\<rparr>]\<rparr>))"
    using assms by (subst publish_head.simps) (simp add: slots_clear_def q1_def Let_def)
  show ?thesis by (simp add: load_head_set_hazard_def fs ph)
qed

lemma pop_claim_clear:
  assumes "slots_clear q" "0 < q_hazard_holder_size q" "q_head q = Some h"
    "q_nodes q h = Some n" "\<not> qn_taken n"
  shows "pop_claim q = Some (Ok (h, q\<lparr>q_nodes := (q_nodes q)(h \<mapsto> n\<lparr>qn_taken := True\<rparr>)\<rparr>))"
  using assms
  apply (subst pop_claim.simps)
  apply (simp add: load_head_set_hazard_clear Let_def clear_hazard_def)
  apply (simp add: slots_clear_def replicate_update_same hazard_ctor_def)
  done

lemma delete_qnode_single:
  "q_nodes q p = Some n \<Longrightarrow> qn_next n = None \<Longrightarrow>
   delete_qnode p q = Some (Ok (q\<lparr>q_nodes := (q_nodes q)(p := None)\<rparr>))"
  by (subst delete_qnode.simps) simp

lemma queue_collect_garbage_none:
  "q_garbage q = None \<Longrightarrow> queue_collect_garbage q = Some (Ok q)"
  unfolding queue_collect_garbage_def
  by (subst queue_collect_loop.simps) simp

lemma push_claim_empty_tail:
  "q_tail q = Some t \<Longrightarrow> q_nodes q t = Some n \<Longrightarrow> qn_data n = None \<Longrightarrow>
   push_claim v q = Some (Ok (t, q\<lparr>q_nodes := (q_nodes q)(t \<mapsto> n\<lparr>qn_data := Some v\<rparr>)\<rparr>))"
  by (subst push_claim.simps) simp

lemma queue_inv_slots: "queue_inv q xs \<Longrightarrow> slots_clear q \<and> 0 < q_hazard_holder_size q"
  by (auto simp: queue_inv_def slots_clear_def split: option.splits)

lemma queue_push_inv:
  assumes "queue_inv q xs"
  shows "\<exists>q' t. queue_push v q = Some (Ok q') \<and> q_tail q = Some t \<and> queue_inv q' (xs @ [(t, v)])"
proof -
  from assms obtain t where t: "q_tail q = Some t"
    and ch: "qchain (q_nodes q) (q_head q) xs t" and tn: "q_nodes q t = Some qnode_ctor"
    and dist: "distinct (t # map fst xs)" and lt: "list_all (\<lambda>a. a < q_fresh q) (t # map fst xs)"
    and g: "q_garbage q = None" "q_garbage_size q = 0"
    and hz: "q_hazard_holder q = replicate (q_hazard_holder_size q) hazard_ctor" "0 < q_hazard_holder_size q"
    by (auto simp: queue_inv_def split: option.splits)
  define f where "f = q_fresh q"
  define q1 where "q1 = q\<lparr>q_nodes := (q_nodes q)(f \<mapsto> qnode_ctor), q_fresh := Suc f\<rparr>"
  have ft: "f \<noteq> t" and fx: "f \<notin> set (map fst xs)" and tx: "t \<notin> set (map fst xs)"
    using lt dist by (auto simp: f_def list_all_iff)
  define q2 where "q2 = q1\<lparr>q_nodes := (q_nodes q1)(t \<mapsto> qnode_ctor\<lparr>qn_data := Some v\<rparr>)\<rparr>"
  define q' where "q' = q2\<lparr>q_nodes := (q_nodes q2)(t \<mapsto> (qnode_ctor\<lparr>qn_data := Some v\<rparr>)\<lparr>qn_next := Some f\<rparr>),
                           q_tail := Some f\<rparr>"
  have nq: "new_qnode q = (f, q1)" by (simp add: new_qnode_def f_def q1_def)
  have pc: "push_claim v q1 = Some (Ok (t, q2))"
    using push_claim_empty_tail [of q1 t qnode_ctor v] t tn ft
    by (simp add: q1_def q2_def qnode_ctor_def)
  have push: "queue_push v q = Some (Ok q')"
    by (simp add: queue_push_def nq pc q'_def) (simp add: q2_def)
  have nodes': "q_nodes q' = (q_nodes q)(f \<mapsto> qnode_ctor, t \<mapsto> \<lparr>qn_taken = False, qn_data = Some v, qn_next = Some f\<rparr>)"
    by (simp add: q'_def q2_def q1_def qnode_ctor_def)
  have rest': "q_head q' = q_head q" "q_tail q' = Some f" "q_fresh q' = Suc f"
    "q_garbage q' = q_garbage q" "q_garbage_size q' = q_garbage_size q"
    "q_hazard_holder q' = q_hazard_holder q" "q_hazard_holder_size q' = q_hazard_holder_size q"
    by (simp_all add: q'_def q2_def q1_def)
  have "qchain ((q_nodes q)(f \<mapsto> qnode_ctor)) (q_head q) xs t"
    using ch fx by (simp add: qchain_upd_other)
  then have ch': "qchain (q_nodes q') (q_head q') (xs @ [(t, v)]) f"
    using qchain_append [of "(q_nodes q)(f \<mapsto> qnode_ctor)" "q_head q" xs t v f] tx
    by (simp add: nodes' rest')
  have fn: "q_nodes q' f = Some qnode_ctor"
    using ft by (simp add: nodes')
  have "list_all (\<lambda>a. a < Suc f) (f # map fst (xs @ [(t, v)]))"
    using lt by (auto simp: f_def list_all_iff less_Suc_eq)
  moreover have "distinct (f # map fst (xs @ [(t, v)]))"
    using dist ft fx by auto
  ultimately have "queue_inv q' (xs @ [(t, v)])"
    using ch' g hz fn unfolding queue_inv_def rest' by simp
  with push t show ?thesis by blast
qed

lemma queue_pop_empty:
  assumes "queue_inv q []"
  shows "queue_pop q = Some (Ok (None, q))"
proof -
  from assms obtain t where t: "q_tail q = Some t" "q_head q = Some t"
    and tn: "q_nodes q t = Some qnode_ctor"
    by (auto simp: queue_inv_def split: option.splits)
  have pc: "pop_claim q = Some (Ok (t, q\<lparr>q_nodes := (q_nodes q)(t \<mapsto> qnode_ctor\<lparr>qn_taken := True\<rparr>)\<rparr>))"
    using pop_claim_clear [of q t qnode_ctor] queue_inv_slots [OF assms] t tn
    by (simp add: qnode_ctor_def)
  have "(q_nodes q)(t \<mapsto> qnode_ctor) = q_nodes q"
    using tn by (simp add: map_upd_triv)
  then show ?thesis
    using t by (simp add: queue_pop_def pc) (simp add: qnode_ctor_def)
qed

lemma queue_pop_nonempty:
  assumes "queue_inv q ((a, v) # xs)"
  shows "\<exists>q'. queue_pop q = Some (Ok (Some v, q')) \<and> queue_inv q' xs"
proof -
  from assms obtain t where t: "q_tail q = Some t" and hd: "q_head q = Some a"
    and tn: "q_nodes q t = Some qnode_ctor"
    and dist: "distinct (t # a # map fst xs)" and lt: "list_all (\<lambda>a. a < q_fresh q) (t # map fst xs)"
    and g: "q_garbage q = None" "q_garbage_size q = 0"
    and hz: "q_hazard_holder q = replicate (q_hazard_holder_size q) hazard_ctor" "0 < q_hazard_holder_size q"
    by (auto simp: queue_inv_def split: option.splits)
  from assms t obtain n where n: "q_nodes q a = Some n" "\<not> qn_taken n" "qn_data n = Some v"
    and rest: "qchain (q_nodes q) (qn_next n) xs t"
    by (auto simp: queue_inv_def split: option.splits)
  define q1 where "q1 = q\<lparr>q_nodes := (q_nodes q)(a \<mapsto> n\<lparr>qn_taken := True\<rparr>)\<rparr>"
  define q' where "q' = q\<lparr>q_head := qn_next n, q_nodes := (q_nodes q)(a := None)\<rparr>"
  have pc: "pop_claim q = Some (Ok (a, q1))"
    using pop_claim_clear [of q a n] queue_inv_slots [OF assms] hd n by (simp add: q1_def)
  have gc: "queue_collect_garbage q' = Some (Ok q')"
    using g by (simp add: queue_collect_garbage_none q'_def)
  have at: "a \<noteq> t" using dist by auto
  have pop: "queue_pop q = Some (Ok (Some v, q'))"
    using t n at hz
    apply (simp add: queue_pop_def pc)
    apply (simp add: q1_def Let_def is_hazardous_clear slots_clear_def delete_qnode_single)
    apply (simp add: q'_def [symmetric] gc)
    done
  have "queue_inv q' xs"
    using rest dist lt g hz t tn at by (simp add: queue_inv_def q'_def qchain_upd_other)
  with pop show ?thesis by blast
qed

lemma queue_init_inv: "0 < hs \<Longrightarrow> queue_inv (Queue_TS_init hs gm) []"
  by (simp add: queue_inv_def Queue_TS_init_def)

lemma queue_run_fifo:
  "queue_inv q xs \<Longrightarrow> \<exists>q'. queue_run ops q = Some (Ok (fifo ops (map snd xs), q'))"
proof (induction ops arbitrary: q xs)
  case Nil
  then show ?case by simp
next
  case (Cons op ops)
  show ?case
  proof (cases op)
    case (QPush v)
    from queue_push_inv [OF Cons.prems, of v] obtain q1 t where
      p: "queue_push v q = Some (Ok q1)" and i: "queue_inv q1 (xs @ [(t, v)])" by blast
    from Cons.IH [OF i] show ?thesis
      using QPush p by simp
  next
    case QPop
    show ?thesis
    proof (cases xs)
      case Nil
      with Cons.prems have "queue_pop q = Some (Ok (None, q))"
        by (simp add: queue_pop_empty)
      moreover from Cons.IH [OF Cons.prems] obtain q' where
        "queue_run ops q = Some (Ok (fifo ops (map snd xs), q'))" by blast
      ultimately show ?thesis using QPop Nil by simp
    next
      case (Cons av xs')
      obtain a v where av: "av = (a, v)" by (cases av)
      from queue_pop_nonempty [of q a v xs'] Cons.prems Cons av
      obtain q1 where p: "queue_pop q = Some (Ok (Some v, q1))" and i: "queue_inv q1 xs'"
        by auto
      from Cons.IH [OF i] obtain q' where
        "queue_run ops q1 = Some (Ok (fifo ops (map snd xs'), q'))" by blast
      with p show ?thesis using QPop Cons av by simp
    qed
  qed
qed

lemma fifo_pushes: "fifo (map QPush vs @ ops) xs = fifo ops (xs @ vs)"
  by (induction vs arbitrary: xs) auto

lemma fifo_drain: "fifo (replicate (Suc (length xs)) QPop) xs = map Some xs @ [None]"
  by (induction xs) auto

text \<open>
  C3. A queue with at least one hazard slot, used by one thread. Whatever sequence of
  \<^verbatim>\<open>push\<close> and \<^verbatim>\<open>pop\<close> calls is made on a fresh queue, every call returns and the pops
  return what a first-in first-out list returns (\<open>fifo\<close>); in particular, pushing \<open>vs\<close> and
  popping once more than \<open>vs\<close> is long returns the values in the order pushed, then the
  empty result. The witness is the scenario push 1, 2, 3, then four pops.
\<close>

theorem queue_fifo:
  assumes "0 < hs"
  shows "(\<exists>q'. queue_run ops (Queue_TS_init hs gm) = Some (Ok (fifo ops [], q'))) \<and>
         (\<exists>q'. queue_run (map QPush vs @ replicate (Suc (length vs)) QPop) (Queue_TS_init hs gm) =
                 Some (Ok (map Some vs @ [None], q')))"
proof -
  have inv: "queue_inv (Queue_TS_init hs gm) []" using assms by (rule queue_init_inv)
  have "fifo (map QPush vs @ replicate (Suc (length vs)) QPop) [] = map Some vs @ [None]"
    using fifo_drain [of vs] by (simp add: fifo_pushes)
  with queue_run_fifo [OF inv] show ?thesis by (metis list.simps(8))
qed

theorem queue_fifo_witness:
  "0 < (16::nat) \<and>
   (\<exists>q'. queue_run [QPush 1, QPush 2, QPush 3, QPop, QPop, QPop, QPop] (Queue_TS_init 16 1024) =
          Some (Ok ([Some (1::int), Some 2, Some 3, None], q')))"
  using queue_fifo [of 16 "[QPush (1::int), QPush 2, QPush 3, QPop, QPop, QPop, QPop]" 1024 "[]"]
  apply simp
  apply blast
  done

section \<open>Popping an empty container\<close>

lemma get_hazard_pointer_from_first:
  assumes "s_hazard_arr s = Some arr" "length arr = s_hazard_max_size s"
    "i0 < length arr" "hp_thread_id (arr ! i0) = None"
    "\<forall>j. idx \<le> j \<and> j < i0 \<longrightarrow> hp_thread_id (arr ! j) \<noteq> None" "idx \<le> i0"
  shows "get_hazard_pointer_from idx t s =
           Ok (Some i0, hazard_store s i0 ((arr ! i0)\<lparr>hp_thread_id := Some t\<rparr>))"
  using assms
proof (induction "i0 - idx" arbitrary: idx)
  case 0
  then have "idx = i0" by simp
  with 0 show ?case
    by (subst get_hazard_pointer_from.simps) (simp add: hazard_at_def)
next
  case (Suc k)
  then have lt: "idx < i0" by simp
  with Suc.prems have "hp_thread_id (arr ! idx) \<noteq> None" by simp
  moreover have "get_hazard_pointer_from (Suc idx) t s =
           Ok (Some i0, hazard_store s i0 ((arr ! i0)\<lparr>hp_thread_id := Some t\<rparr>))"
    using Suc.hyps(1) [of "Suc idx"] Suc.hyps(2) Suc.prems lt by simp
  ultimately show ?case
    using Suc.prems lt by (subst get_hazard_pointer_from.simps) (simp add: hazard_at_def)
qed

lemma stack_pop_null_head:
  assumes hd: "s_head s = None" and arr: "s_hazard_arr s = Some arr"
    and len: "length arr = s_hazard_max_size s"
    and free: "i < length arr" "hp_thread_id (arr ! i) = None"
    and idle: "\<forall>j<length arr. hp_thread_id (arr ! j) = None \<longrightarrow> hp_pointer (arr ! j) = None"
  shows "stack_pop t m s = Some (Ok (None, m, s))"
proof -
  define i0 where "i0 = (LEAST j. hp_thread_id (arr ! j) = None)"
  have i0: "hp_thread_id (arr ! i0) = None" unfolding i0_def using free(2) by (rule LeastI)
  have i0_le: "i0 \<le> i" unfolding i0_def using free(2) by (rule Least_le)
  then have i0_lt: "i0 < length arr" using free(1) by simp
  have before: "\<forall>j. 0 \<le> j \<and> j < i0 \<longrightarrow> hp_thread_id (arr ! j) \<noteq> None"
    unfolding i0_def using not_less_Least by blast
  have slot: "arr ! i0 = \<lparr>hp_thread_id = None, hp_pointer = None\<rparr>"
    using i0 idle i0_lt by (cases "arr ! i0") auto
  define s1 where "s1 = hazard_store s i0 \<lparr>hp_thread_id = Some t, hp_pointer = None\<rparr>"
  have "get_hazard_pointer t s = Ok (Some i0, s1)"
    unfolding get_hazard_pointer_def s1_def
    using get_hazard_pointer_from_first [OF arr len i0_lt i0 before, of t] slot by simp
  then have acq: "stack_acquire t s = Some (Ok (i0, s1))"
    by (subst stack_acquire.simps) simp
  have at1: "hazard_at s1 i0 = Ok \<lparr>hp_thread_id = Some t, hp_pointer = None\<rparr>"
    and hd1: "s_head s1 = None"
    using arr i0_lt hd by (simp_all add: s1_def hazard_at_def hazard_store_def)
  have "hazard_store s1 i0 \<lparr>hp_thread_id = Some t, hp_pointer = None\<rparr> = s1"
    using arr by (simp add: s1_def hazard_store_def)
  then have ul: "stack_unlink i0 m s1 = Some (Ok (None, s1))"
    using stack_unlink_null [OF at1 hd1, of m] by simp
  have "arr[i0 := \<lparr>hp_thread_id = None, hp_pointer = None\<rparr>] = arr"
    using slot by (metis list_update_id)
  then have cl: "clear_hazard_pointer i0 s1 = Ok s"
    using arr by (simp add: clear_hazard_pointer_def at1) (simp add: s1_def hazard_store_def)
  show ?thesis by (simp add: stack_pop_def acq ul cl)
qed

lemma stack_acquire_needs_slot:
  assumes "stack_acquire t s = Some r"
  shows "s_hazard_max_size s \<noteq> 0"
proof (rule stack_acquire.raw_induct [where P = "\<lambda>t s r. s_hazard_max_size s \<noteq> 0", OF _ assms])
  fix f :: "nat \<Rightarrow> Stack_TS \<Rightarrow> (nat \<times> Stack_TS) result option" and t s r
  assume IH: "\<And>t s r. f t s = Some r \<Longrightarrow> s_hazard_max_size s \<noteq> 0"
    and step: "(case get_hazard_pointer t s of
                  Fault e \<Rightarrow> Some (Fault e)
                | Ok (None, s1) \<Rightarrow> f t s1
                | Ok (Some hp, s1) \<Rightarrow> Some (Ok (hp, s1))) = Some r"
  show "s_hazard_max_size s \<noteq> 0"
  proof
    assume z: "s_hazard_max_size s = 0"
    then have "get_hazard_pointer t s = Ok (None, s)"
      unfolding get_hazard_pointer_def by (subst get_hazard_pointer_from.simps) simp
    with step have "f t s = Some r" by simp
    from IH [OF this] z show False by simp
  qed
qed

text \<open>
  C5, as amended. \<^verbatim>\<open>pop\<close> on a fresh queue with at least one hazard slot sets the dummy
  node's claim flag (the result of the claim loop), clears it again and returns the empty
  result, leaving the queue as constructed. \<^verbatim>\<open>pop\<close> on a stack whose head is null
  returns the empty result and leaves the stack and the free store unchanged, when the
  hazard table has a slot no thread holds (slots that no thread holds keep no pointer).
\<close>

theorem pop_empty_returns:
  assumes "0 < hs"
    and "s_head s = None" and "s_hazard_arr s = Some arr" and "length arr = s_hazard_max_size s"
    and "i < length arr" and "hp_thread_id (arr ! i) = None"
    and "\<forall>j<length arr. hp_thread_id (arr ! j) = None \<longrightarrow> hp_pointer (arr ! j) = None"
  shows "pop_claim (Queue_TS_init hs gm) =
           Some (Ok (1, (Queue_TS_init hs gm)\<lparr>q_nodes := [1 \<mapsto> qnode_ctor\<lparr>qn_taken := True\<rparr>]\<rparr>)) \<and>
         queue_pop (Queue_TS_init hs gm) = Some (Ok (None, Queue_TS_init hs gm)) \<and>
         stack_pop t m s = Some (Ok (None, m, s))"
proof -
  have inv: "queue_inv (Queue_TS_init hs gm) []" using assms(1) by (rule queue_init_inv)
  have "pop_claim (Queue_TS_init hs gm) =
          Some (Ok (1, (Queue_TS_init hs gm)\<lparr>q_nodes := [1 \<mapsto> qnode_ctor\<lparr>qn_taken := True\<rparr>]\<rparr>))"
    using pop_claim_clear [OF conjunct1 [OF queue_inv_slots [OF inv]] conjunct2 [OF queue_inv_slots [OF inv]], of 1 qnode_ctor]
    by (simp add: Queue_TS_init_def qnode_ctor_def)
  moreover have "queue_pop (Queue_TS_init hs gm) = Some (Ok (None, Queue_TS_init hs gm))"
    using inv by (rule queue_pop_empty)
  moreover have "stack_pop t m s = Some (Ok (None, m, s))"
    using assms(2-) by (rule stack_pop_null_head)
  ultimately show ?thesis by simp
qed

theorem pop_empty_returns_witness:
  "pop_claim (Queue_TS_init 16 1024 :: int Queue_TS) =
     Some (Ok (1, (Queue_TS_init 16 1024)\<lparr>q_nodes := [1 \<mapsto> qnode_ctor\<lparr>qn_taken := True\<rparr>]\<rparr>)) \<and>
   queue_pop (Queue_TS_init 16 1024 :: int Queue_TS) = Some (Ok (None, Queue_TS_init 16 1024)) \<and>
   stack_pop 7 \<lparr>sm_nodes = Map.empty, sm_fresh = 1\<rparr> (Stack_TS_init 32) =
     Some (Ok (None, \<lparr>sm_nodes = Map.empty, sm_fresh = 1\<rparr>, Stack_TS_init 32))"
  using pop_empty_returns [of 16 "Stack_TS_init 32"
      "replicate 32 \<lparr>hp_thread_id = None, hp_pointer = None\<rparr>" 0 1024 7
      "\<lparr>sm_nodes = Map.empty, sm_fresh = 1\<rparr>"]
  by (simp add: Stack_TS_init_def)

text \<open>
  C5 as stated fails without a hazard slot: \<^verbatim>\<open>pop\<close> on the empty stack built by
  \<^verbatim>\<open>Stack_TS(0)\<close> never returns (no slot can be claimed, the \<^verbatim>\<open>while(!hp)\<close> loop spins),
  and \<^verbatim>\<open>pop\<close> on the fresh queue built by \<^verbatim>\<open>Queue_TS(0, 1024)\<close> reads slot 0 of an
  empty table.
\<close>

theorem pop_without_slot_counterexample:
  "stack_pop 7 \<lparr>sm_nodes = Map.empty, sm_fresh = 1\<rparr> (Stack_TS_init 0) = None \<and>
   queue_pop (Queue_TS_init 0 1024 :: int Queue_TS) = Some (Fault Out_Of_Bounds)"
proof -
  have "stack_acquire 7 (Stack_TS_init 0) = None"
    using stack_acquire_needs_slot [of 7 "Stack_TS_init 0"]
    by (cases "stack_acquire 7 (Stack_TS_init 0)") (simp_all add: Stack_TS_init_def)
  then have "stack_pop 7 \<lparr>sm_nodes = Map.empty, sm_fresh = 1\<rparr> (Stack_TS_init 0) = None"
    by (simp add: stack_pop_def)
  moreover have "find_slot 0 (Queue_TS_init 0 1024 :: int Queue_TS) = Some (Fault Out_Of_Bounds)"
    by (subst find_slot.simps) (simp add: Queue_TS_init_def)
  then have "queue_pop (Queue_TS_init 0 1024 :: int Queue_TS) = Some (Fault Out_Of_Bounds)"
    by (simp add: queue_pop_def load_head_set_hazard_def pop_claim.simps)
  ultimately show ?thesis by simp
qed

section \<open>The queue: hazard slots held by other threads\<close>











section \<open>The queue: an invariant of the garbage list\<close>











section \<open>Move construction and move assignment of the stack\<close>

lemma reach_None [simp]: "\<not> reach h None a"
  by (auto elim: reach.cases)

text \<open>
  C9. Move-assigning into a stack whose hazard-table capacity is greater than zero throws,
  and does so before anything is stored: the store of objects is as it was, so the target
  and the source (the same object or not) are unchanged.
\<close>

theorem move_assign_initialized_throws:
  "0 < s_hazard_max_size (st this) \<Longrightarrow>
   Stack_TS_move_assign this other st = (Thrown ''Can not assign to an intialized stack'', st)"
  by (simp add: Stack_TS_move_assign_def)

theorem move_assign_initialized_throws_witness:
  "0 < s_hazard_max_size (((\<lambda>_. Stack_TS_init 0)(0 := Stack_TS_init 32, 1 := Stack_TS_init 4)) (0 :: nat)) \<and>
   Stack_TS_move_assign 0 1 ((\<lambda>_. Stack_TS_init 0)(0 := Stack_TS_init 32, 1 := Stack_TS_init 4)) =
     (Thrown ''Can not assign to an intialized stack'',
      (\<lambda>_. Stack_TS_init 0)(0 := Stack_TS_init 32, 1 := Stack_TS_init 4))"
  using move_assign_initialized_throws
    [of "(\<lambda>_. Stack_TS_init 0)(0 := Stack_TS_init 32, 1 := Stack_TS_init 4)" 0 1]
  by (simp add: Stack_TS_init_def)

lemma reach_Some_iff:
  "reach h (Some a) b \<longleftrightarrow> (\<exists>n. h a = Some n \<and> (a = b \<or> reach h (sn_next n) b))"
  by (auto elim: reach.cases intro: reach.intros)

text \<open>
  C8, as amended. Move assignment from another stack into a stack of capacity zero stores
  the source's live-list head pointer into the destination's head and into the
  destination's garbage pointer as well; the source's garbage pointer is exchanged out of
  the source and stored nowhere; no other object changes. After these stores the call
  reaches the end of the function body, where a \<^verbatim>\<open>return\<close> statement is missing.
\<close>

theorem move_assign_copies_head_twice:
  "s_hazard_max_size (st this) = 0 \<Longrightarrow> this \<noteq> other \<Longrightarrow>
   Stack_TS_move_assign this other st =
     (Missing_Return,
      st(this := \<lparr>s_head = s_head (st other), s_garbage = s_head (st other),
                  s_hazard_arr = s_hazard_arr (st other),
                  s_hazard_max_size = s_hazard_max_size (st other)\<rparr>,
         other := \<lparr>s_head = None, s_garbage = None, s_hazard_arr = None,
                   s_hazard_max_size = s_hazard_max_size (st other)\<rparr>))"
  by (cases "st this"; cases "st other") (auto simp: Stack_TS_move_assign_def Let_def fun_eq_iff)

theorem move_assign_copies_head_twice_witness:
  "s_hazard_max_size (((\<lambda>_. Stack_TS_init 0)
       (1 := \<lparr>s_head = Some 1, s_garbage = Some 2,
              s_hazard_arr = Some (replicate 4 \<lparr>hp_thread_id = None, hp_pointer = None\<rparr>),
              s_hazard_max_size = 4\<rparr>)) (0 :: nat)) = 0 \<and>
   Stack_TS_move_assign 0 1 ((\<lambda>_. Stack_TS_init 0)
       (1 := \<lparr>s_head = Some 1, s_garbage = Some 2,
              s_hazard_arr = Some (replicate 4 \<lparr>hp_thread_id = None, hp_pointer = None\<rparr>),
              s_hazard_max_size = 4\<rparr>)) =
   (Missing_Return,
    (\<lambda>_. Stack_TS_init 0)
       (0 := \<lparr>s_head = Some 1, s_garbage = Some 1,
              s_hazard_arr = Some (replicate 4 \<lparr>hp_thread_id = None, hp_pointer = None\<rparr>),
              s_hazard_max_size = 4\<rparr>,
        1 := \<lparr>s_head = None, s_garbage = None, s_hazard_arr = None, s_hazard_max_size = 4\<rparr>))"
  using move_assign_copies_head_twice [of "(\<lambda>_. Stack_TS_init 0)
       (1 := \<lparr>s_head = Some 1, s_garbage = Some 2,
              s_hazard_arr = Some (replicate 4 \<lparr>hp_thread_id = None, hp_pointer = None\<rparr>),
              s_hazard_max_size = 4\<rparr>)" "0 :: nat" "1 :: nat"]
  by (auto simp: Stack_TS_init_def fun_eq_iff)

text \<open>
  Assigning a stack of capacity zero to itself: the head is read back into the head and
  copied into the garbage pointer, and the hazard table is lost.
\<close>

lemma move_assign_self:
  "s_hazard_max_size (st this) = 0 \<Longrightarrow>
   Stack_TS_move_assign this this st =
     (Missing_Return,
      st(this := \<lparr>s_head = s_head (st this), s_garbage = s_head (st this),
                  s_hazard_arr = None, s_hazard_max_size = 0\<rparr>))"
  by (cases "st this") (auto simp: Stack_TS_move_assign_def Let_def fun_eq_iff)

text \<open>
  C8 as stated says the pointer goes to the garbage pointer rather than to the head. After
  move-assigning a stack that holds one pushed value (node 1) into a default-constructed
  stack of capacity zero, the destination's head is node 1, the source's former head.
\<close>

theorem move_assign_head_counterexample:
  "(case stack_push 5 \<lparr>sm_nodes = Map.empty, sm_fresh = 1\<rparr> (Stack_TS_init 4) of
      (m, src) \<Rightarrow>
        s_head src = Some 1 \<and> sm_nodes m 1 \<noteq> None \<and>
        (case Stack_TS_move_assign 0 1 ((\<lambda>_. Stack_TS_init 0)(1 := src)) of
           (e, st') \<Rightarrow> e = Missing_Return \<and> s_head (st' 0) = Some 1 \<and> s_garbage (st' 0) = Some 1))"
  by (simp add: Stack_TS_move_assign_def Stack_TS_init_def stack_push_def Let_def)

text \<open>
  C10. Move construction stores the source's live-list head pointer into the head and into
  the garbage pointer of the new stack, and leaves the source with null pointers. In any
  free store \<open>h\<close> the same nodes are reachable from the new head and from the new garbage
  pointer, and a node of the source's former garbage list that is not on its live list is
  reachable from no pointer of either stack.
\<close>

theorem move_construct_aliases_head:
  "(case Stack_TS_move other of
      (this', other') \<Rightarrow>
        s_head this' = s_head other \<and> s_garbage this' = s_head other \<and>
        s_hazard_arr this' = s_hazard_arr other \<and>
        s_hazard_max_size this' = s_hazard_max_size other \<and>
        s_head other' = None \<and> s_garbage other' = None \<and> s_hazard_arr other' = None \<and>
        s_hazard_max_size other' = s_hazard_max_size other \<and>
        (\<forall>a. reach h (s_head this') a = reach h (s_garbage this') a) \<and>
        (\<forall>a. reach h (s_garbage other) a \<and> \<not> reach h (s_head other) a \<longrightarrow>
             \<not> reach h (s_head this') a \<and> \<not> reach h (s_garbage this') a \<and>
             \<not> reach h (s_head other') a \<and> \<not> reach h (s_garbage other') a))"
  by (simp add: Stack_TS_move_def Let_def)

theorem move_construct_aliases_head_witness:
  "reach [1 \<mapsto> \<lparr>sn_next = None, sn_data = Some 5\<rparr>, 2 \<mapsto> \<lparr>sn_next = None, sn_data = None\<rparr>] (Some 2) 2 \<and>
   \<not> reach [1 \<mapsto> \<lparr>sn_next = None, sn_data = Some 5\<rparr>, 2 \<mapsto> \<lparr>sn_next = None, sn_data = None\<rparr>] (Some 1) 2 \<and>
   (case Stack_TS_move \<lparr>s_head = Some 1, s_garbage = Some 2,
           s_hazard_arr = Some (replicate 4 \<lparr>hp_thread_id = None, hp_pointer = None\<rparr>),
           s_hazard_max_size = 4\<rparr> of
      (this', other') \<Rightarrow>
        s_head this' = Some 1 \<and> s_garbage this' = Some 1 \<and>
        s_head other' = None \<and> s_garbage other' = None \<and>
        reach [1 \<mapsto> \<lparr>sn_next = None, sn_data = Some 5\<rparr>, 2 \<mapsto> \<lparr>sn_next = None, sn_data = None\<rparr>] (s_head this') 1 \<and>
        reach [1 \<mapsto> \<lparr>sn_next = None, sn_data = Some 5\<rparr>, 2 \<mapsto> \<lparr>sn_next = None, sn_data = None\<rparr>] (s_garbage this') 1 \<and>
        \<not> reach [1 \<mapsto> \<lparr>sn_next = None, sn_data = Some 5\<rparr>, 2 \<mapsto> \<lparr>sn_next = None, sn_data = None\<rparr>] (s_head this') 2 \<and>
        \<not> reach [1 \<mapsto> \<lparr>sn_next = None, sn_data = Some 5\<rparr>, 2 \<mapsto> \<lparr>sn_next = None, sn_data = None\<rparr>] (s_garbage this') 2 \<and>
        \<not> reach [1 \<mapsto> \<lparr>sn_next = None, sn_data = Some 5\<rparr>, 2 \<mapsto> \<lparr>sn_next = None, sn_data = None\<rparr>] (s_head other') 2 \<and>
        \<not> reach [1 \<mapsto> \<lparr>sn_next = None, sn_data = Some 5\<rparr>, 2 \<mapsto> \<lparr>sn_next = None, sn_data = None\<rparr>] (s_garbage other') 2)"
proof -
  let ?h = "[1 \<mapsto> \<lparr>sn_next = None, sn_data = Some 5\<rparr>, 2 \<mapsto> \<lparr>sn_next = None, sn_data = (None :: long option)\<rparr>]"
  let ?other = "\<lparr>s_head = Some 1, s_garbage = Some 2,
           s_hazard_arr = Some (replicate 4 \<lparr>hp_thread_id = None, hp_pointer = None\<rparr>),
           s_hazard_max_size = 4\<rparr>"
  have r2: "reach ?h (Some 2) 2" and r1: "reach ?h (Some 1) 1" and n12: "\<not> reach ?h (Some 1) 2"
    by (simp_all add: reach_Some_iff)
  show ?thesis
    using move_construct_aliases_head [of ?other ?h] r1 r2 n12
    by (cases "Stack_TS_move ?other") (simp add: reach_Some_iff)
qed

section \<open>Reclamation: the hazard scan, the garbage list and the sweep\<close>

text \<open>Unfolding rules that evaluate the queue's operations and the machine on a given state.\<close>

lemmas queue_eval = queue_pop_def pop_claim.simps load_head_set_hazard_def find_slot.simps publish_head.simps
  clear_hazard_def is_hazardous_def is_hazardous_from.simps push_to_garbage_def delete_qnode.simps
  is_garbage_full_def queue_collect_garbage_def queue_collect_loop.simps Let_def

lemmas step_eval = thread_step_def producer_def consumer_def pop_returns_def new_qnode_def qnode_ctor_def
  hazard_ctor_def Queue_TS_init_def

text \<open>
  The machine and the functions agree when the threads take turns call by call: a producer
  that pushes 1, 2, 3 and a consumer that pops after each push, and once more at the end,
  leave the queue that the seven calls leave, with the same results.
\<close>

lemma machine_agrees_with_calls:
  "(case (run sequential_schedule [producer [1 :: int, 2, 3], consumer] (Queue_TS_init 16 1024),
          queue_run [QPush 1, QPop, QPush 2, QPop, QPush 3, QPop, QPop] (Queue_TS_init 16 1024)) of
      (Some (Ok (ts, q)), Some (Ok (rs, q'))) \<Rightarrow>
        list_all th_done ts \<and> map Some (th_popped (ts ! 1)) @ [None] = rs \<and> q = q'
    | _ \<Rightarrow> False)"
  unfolding sequential_schedule_def
  by (simp add: step_eval queue_eval queue_push_def push_claim.simps)

lemmas stack_eval = stack_pop_def stack_acquire.simps get_hazard_pointer_def get_hazard_pointer_from.simps
  stack_unlink.simps set_hazard_pointer_def clear_hazard_pointer_def hazard_at_def hazard_store_def
  hazard_existed_def hazard_existed_from.simps claim_later_def delete_snode.simps
  stack_collect_garbage_def stack_collect_loop.simps stack_push_def snode_ctor_def Stack_TS_init_def Let_def

lemmas sstep_eval = sthread_step_def popper_def one_value_stack_def whole_pop_schedule_def

lemmas events_eval = other_take_def other_publish_def queue_push_def push_claim.simps new_qnode_def
  qnode_ctor_def hazard_ctor_def Queue_TS_init_def

text \<open>
  The machine of stack threads and \<^verbatim>\<open>stack_pop\<close> agree on a call that runs alone.
\<close>

lemma stack_machine_agrees_with_calls:
  "(case (srun whole_pop_schedule [popper 7] (fst one_value_stack) (snd one_value_stack),
          stack_pop 7 (fst one_value_stack) (snd one_value_stack)) of
      (Some (Ok (ts, m, s)), Some (Ok (r, m', s'))) \<Rightarrow>
        sth_pc (ts ! 0) = SPop_Returned r \<and> r = Some 5 \<and> m = m' \<and> s = s'
    | _ \<Rightarrow> False)"
  by (simp add: sstep_eval stack_eval)

text \<open>
  The statements of the other threads are steps of the machine of queue threads: the
  \<^verbatim>\<open>test_and_set\<close> of \<open>Pop_Find_Slot\<close>, the store of \<open>Pop_Publish\<close> and the
  \<^verbatim>\<open>clear_hazard\<close> of \<open>Pop_Clear\<close> change the queue as \<open>other_take\<close>, \<open>other_publish\<close> and
  \<open>clear_hazard\<close> do.
\<close>

lemma other_events_are_thread_steps:
  assumes "slot < length (q_hazard_holder q)" "0 < q_hazard_holder_size q"
  shows "\<exists>t1 t2 t3 q1 q2 q3.
      other_take slot q = Ok q1 \<and> thread_step (t\<lparr>th_pc := Pop_Find_Slot slot\<rparr>) q = Some (Ok (t1, q1)) \<and>
      other_publish slot p q = Ok q2 \<and> thread_step (t\<lparr>th_pc := Pop_Publish slot p\<rparr>) q = Some (Ok (t2, q2)) \<and>
      clear_hazard slot q = Ok q3 \<and> thread_step (t\<lparr>th_pc := Pop_Clear slot h b\<rparr>) q = Some (Ok (t3, q3))"
  using assms by (simp add: thread_step_def other_take_def other_publish_def clear_hazard_def Let_def)

text \<open>
  C2 fails for the stack. The stack holds one value, in node 1, and two threads call
  \<^verbatim>\<open>pop\<close>. The first takes slot 0 and loads the head, node 1, in \<^verbatim>\<open>set_hazard_pointer\<close>. The
  second takes slot 1, publishes node 1, swings the head, clears its slot, takes the value
  and runs \<^verbatim>\<open>hazard_existed\<close>, which finds no slot that holds node 1. The first thread now
  stores node 1 in slot 0. In the state reached the program's own scan finds node 1
  protected, and the next step of the second thread is \<^verbatim>\<open>delete old_head\<close>: node 1 is freed
  while slot 0 holds its address. The next step of the first thread reads
  \<^verbatim>\<open>old_head->next\<close> in the freed node.
\<close>

theorem stack_frees_protected_node:
  "(case srun stack_late_publish_schedule [popper 1, popper 2] (fst one_value_stack) (snd one_value_stack) of
      Some (Ok (ts, m, s)) \<Rightarrow>
        sth_pc (ts ! 0) = SPop_Read_Next 0 (Some 1) \<and>
        sth_pc (ts ! 1) = SPop_Dispose 1 (Some 5) False \<and>
        hazard_existed s (Some 1) = Ok True \<and> sm_nodes m 1 \<noteq> None \<and>
        (case sthread_step (ts ! 1) m s of
           Some (Ok (t', m', s')) \<Rightarrow>
             sm_nodes m' 1 = None \<and> hazard_existed s' (Some 1) = Ok True \<and>
             sthread_step (ts ! 0) m' s' = Some (Fault Dangling_Pointer)
         | _ \<Rightarrow> False)
    | _ \<Rightarrow> False)"
  unfolding stack_late_publish_schedule_def by (simp add: sstep_eval stack_eval)

text \<open>
  The same late store in the queue: a producer pushes 1, the second consumer takes slot 0
  and loads the head, node 1; the first consumer claims node 1, unlinks it and scans the
  table; the second consumer publishes node 1 in slot 0; the next step of the first
  consumer deletes node 1 while slot 0 holds its address. (The second consumer then finds
  the head changed and loads it again.)
\<close>

lemma queue_delete_after_late_publish:
  "(case run late_publish_schedule [producer [1 :: int], consumer, consumer] (Queue_TS_init 16 1024) of
      Some (Ok (ts, q)) \<Rightarrow>
        th_pc (ts ! 1) = Pop_Dispose 1 (Some 1) False \<and>
        hz_pointer (q_hazard_holder q ! 0) = Some 1 \<and> q_nodes q 1 \<noteq> None \<and>
        (case thread_step (ts ! 1) q of
           Some (Ok (t', q')) \<Rightarrow> q_nodes q' 1 = None \<and> hz_pointer (q_hazard_holder q' ! 0) = Some 1
         | _ \<Rightarrow> False)
    | _ \<Rightarrow> False)"
  unfolding late_publish_schedule_def by (simp add: step_eval queue_eval)

text \<open>
  A delete in the queue that no scan precedes. The second producer loads the tail, node 1,
  and is delayed; the first producer pushes 1; the consumer pops it, resets \<^verbatim>\<open>data\<close> and
  \<^verbatim>\<open>next\<close> of node 1 and scans the table for node 1. The second producer's compare-exchange
  now succeeds on node 1, it links its new node 2 behind node 1 and makes node 2 the tail.
  The consumer's \<^verbatim>\<open>delete old_head\<close> then runs the destructor of node 1, which deletes
  \<^verbatim>\<open>next\<close>: node 2, the tail, is freed though no scan looked for it, and the next \<^verbatim>\<open>push\<close>
  dereferences the freed tail.
\<close>

lemma queue_delete_cascades_to_tail:
  "(case run cascade_schedule [producer [1 :: int], producer [2], consumer] (Queue_TS_init 16 1024) of
      Some (Ok (ts, q)) \<Rightarrow>
        th_pc (ts ! 2) = Pop_Dispose 1 (Some 1) False \<and>
        q_tail q = Some 2 \<and> q_nodes q 1 \<noteq> None \<and> q_nodes q 2 \<noteq> None \<and>
        (case thread_step (ts ! 2) q of
           Some (Ok (t', q')) \<Rightarrow>
             q_nodes q' 1 = None \<and> q_nodes q' 2 = None \<and> q_tail q' = Some 2 \<and>
             queue_push 3 q' = Some (Fault Dangling_Pointer)
         | _ \<Rightarrow> False)
    | _ \<Rightarrow> False)"
  unfolding cascade_schedule_def
  by (simp add: step_eval queue_eval queue_push_def push_claim.simps)



text \<open>
  The events of two stalled consumers, with threshold 1: the run ends with two nodes on
  the garbage list.
\<close>

lemma stalled_consumers_exceed_threshold:
  "(case events_run stalled_consumers (Queue_TS_init 16 1) of
      Some (Ok (rs, q)) \<Rightarrow>
        rs = [Some 1, Some 2] \<and> qlist (q_nodes q) (q_garbage q) [1, 2] \<and>
        unat (q_garbage_max_size q) = 1
    | _ \<Rightarrow> False)"
  unfolding stalled_consumers_def by (simp add: events_eval queue_eval)


section \<open>Conservation of pushed values\<close>

text \<open>
  C1 fails for the queue with two producers and two consumers. The second producer loads
  the tail, node 1, and is delayed. The first producer pushes 1 into node 1 and moves the
  tail on. The second consumer publishes node 1 in a hazard slot and is delayed. The first
  consumer pops 1, finds node 1 protected and puts it, emptied, on the garbage list; its
  next \<^verbatim>\<open>pop\<close> finds the queue empty. The second producer's compare-exchange now succeeds
  on node 1, a garbage node: the value 2 is stored there and the tail is set to a node that
  the live list does not reach. The second consumer's \<^verbatim>\<open>pop\<close> returns the empty result.
  All four threads have finished; 2 was pushed and no pop returned it. It sits in node 1,
  on the garbage list, and \<^verbatim>\<open>head\<close> is null: a further \<^verbatim>\<open>pop\<close> dereferences a null pointer.
\<close>

theorem queue_loses_pushed_value:
  "(case run lost_value_schedule [producer [1 :: int], producer [2], consumer, consumer] (Queue_TS_init 16 1024) of
      Some (Ok (ts, q)) \<Rightarrow>
        list_all th_done ts \<and> map th_popped ts = [[], [], [1], []] \<and>
        mset (concat (map th_popped ts)) \<noteq> mset [1, 2] \<and>
        q_head q = None \<and> q_garbage q = Some 1 \<and> map_option qn_data (q_nodes q 1) = Some (Some 2) \<and>
        queue_pop q = Some (Fault Null_Dereference)
    | _ \<Rightarrow> False)"
  unfolding lost_value_schedule_def by (simp add: step_eval queue_eval)

end
